theory Spec2Isabelle
  imports Main
begin

section \<open>The expiring containers of za-utils\<close>

text \<open>
  This theory embeds the classes \<^verbatim>\<open>ExpiringMap\<close> (\<^verbatim>\<open>expiring-map.ts\<close>) and
  \<^verbatim>\<open>ExpiringSet\<close> (\<^verbatim>\<open>expiring-set.ts\<close>) together with \<^verbatim>\<open>toSync\<close>
  (\<^verbatim>\<open>async.ts\<close>).

  Conventions of the embedding.
  \<^item> A method \<^verbatim>\<open>m\<close> of \<^verbatim>\<open>ExpiringMap\<close> is the function \<open>em_m\<close>, a method of
    \<^verbatim>\<open>ExpiringSet\<close> is \<open>es_m\<close>. A method takes the state of the container and
    returns its result together with the new state.
  \<^item> The built-in \<^verbatim>\<open>Map\<close> behind the private field \<^verbatim>\<open>#map\<close> is an association list
    in insertion order (\<open>Map_get\<close>, \<open>Map_has\<close>, \<open>Map_set\<close>, \<open>Map_delete\<close>).
  \<^item> The state also holds the part of the runtime the class talks to: the clock read by
    \<^verbatim>\<open>Date.now()\<close>, the pending single-shot timers of \<^verbatim>\<open>setTimeout\<close> /
    \<^verbatim>\<open>clearTimeout\<close>, and a trace of the calls made to user-supplied functions.
    Times and durations are integers (milliseconds); one synchronous method call reads
    one clock value.
  \<^item> A user-supplied function (expiry callback, \<^verbatim>\<open>forEach\<close> callback, error callback)
    is modelled by its outcome: it returns, throws, or returns a promise that is
    fulfilled, is rejected, or never settles. The outcome may depend on the arguments and
    on what the container handed to it shows through its reading methods (a snapshot:
    key, value, expiry of each entry, in order). A user function that itself mutates the
    container it is handed is outside the model.
  \<^item> A promise is modelled by the state it reaches in the end
    (\<open>Fulfilled\<close>, \<open>Rejected\<close>, or \<open>Pending\<close> for ever).
\<close>

subsection \<open>Promises and user functions\<close>

datatype js_error = JsError nat

datatype 'a promise = Fulfilled 'a | Rejected js_error | Pending

text \<open>What a call of a user-supplied function of type
  \<^verbatim>\<open>(...) => void | Promise<void>\<close> does.\<close>

datatype cb_result =
    Returned
  | Threw js_error
  | Resolved
  | RejectedWith js_error
  | NeverSettled

text \<open>\<^verbatim>\<open>await f(...)\<close> inside an async function: the state the awaited call leaves
  the enclosing async function in when nothing follows the \<^verbatim>\<open>await\<close> that could
  change it. A synchronous throw rejects the enclosing function's promise as well.\<close>

fun awaited :: "cb_result \<Rightarrow> unit promise" where
  "awaited Returned = Fulfilled ()"
| "awaited (Threw e) = Rejected e"
| "awaited Resolved = Fulfilled ()"
| "awaited (RejectedWith e) = Rejected e"
| "awaited NeverSettled = Pending"

fun rejections :: "'a promise list \<Rightarrow> js_error list" where
  "rejections [] = []"
| "rejections (Rejected e # ps) = e # rejections ps"
| "rejections (_ # ps) = rejections ps"

fun is_Pending :: "'a promise \<Rightarrow> bool" where
  "is_Pending Pending = True"
| "is_Pending _ = False"

text \<open>\<^verbatim>\<open>await Promise.all(ps)\<close> as the last statement of an async function. The result
  is the list of states the function's promise can end in: \<^verbatim>\<open>Promise.all\<close> rejects
  with the reason of whichever element rejects first in time, which the model does not
  fix, so every rejection reason is possible; without a rejection it stays pending if
  an element does, and is fulfilled otherwise.\<close>

definition Promise_all :: "'a promise list \<Rightarrow> unit promise list" where
  "Promise_all ps =
     (if rejections ps \<noteq> [] then map Rejected (rejections ps)
      else if list_ex is_Pending ps then [Pending]
      else [Fulfilled ()])"

subsection \<open>The built-in Map, in insertion order\<close>

definition Map_get :: "('k \<times> 'e) list \<Rightarrow> 'k \<Rightarrow> 'e option" where
  "Map_get m key = map_of m key"

definition Map_has :: "('k \<times> 'e) list \<Rightarrow> 'k \<Rightarrow> bool" where
  "Map_has m key = (key \<in> fst ` set m)"

text \<open>\<^verbatim>\<open>Map.prototype.set\<close>: an existing key keeps its position, a new key is
  appended.\<close>

fun Map_set :: "('k \<times> 'e) list \<Rightarrow> 'k \<Rightarrow> 'e \<Rightarrow> ('k \<times> 'e) list" where
  "Map_set [] key e = [(key, e)]"
| "Map_set ((k, e') # m) key e =
     (if k = key then (key, e) # m else (k, e') # Map_set m key e)"

definition Map_delete :: "('k \<times> 'e) list \<Rightarrow> 'k \<Rightarrow> ('k \<times> 'e) list" where
  "Map_delete m key = filter (\<lambda>(k, e). k \<noteq> key) m"

definition Map_keys :: "('k \<times> 'e) list \<Rightarrow> 'k list" where
  "Map_keys m = map fst m"

subsection \<open>ExpiringMap: the state\<close>

type_synonym timer_id = nat

text \<open>What a user function can read off the container it is handed:
  key, value and expiry of each entry, in iteration order.\<close>

type_synonym ('k, 'v) view = "('k \<times> 'v \<times> int option) list"

type_synonym ('k, 'v) MapExpiryCallback = "'k \<Rightarrow> 'v \<Rightarrow> ('k, 'v) view \<Rightarrow> cb_result"

type_synonym ('k, 'v) MapForEachCallback = "'v \<Rightarrow> 'k \<Rightarrow> ('k, 'v) view \<Rightarrow> cb_result"

text \<open>The error callback returns (\<open>None\<close>) or throws (\<open>Some e\<close>).\<close>

type_synonym ErrorCallback = "js_error \<Rightarrow> js_error option"

record ('k, 'v) ExpiringMapOptions =
  defaultExpiryMs :: "int option"
  defaultExpiryCallback :: "('k, 'v) MapExpiryCallback option"
  expireErrorCallback :: "ErrorCallback option"

text \<open>An entry of \<^verbatim>\<open>#map\<close>.\<close>

record ('k, 'v) entry =
  expiry :: "int option"
  timer :: "timer_id option"
  expiryCallback :: "('k, 'v) MapExpiryCallback option"
  entry_value :: 'v

text \<open>A pending timer: the time from which the runtime may run it, and what the closure
  built in \<^verbatim>\<open>set\<close> captured (\<^verbatim>\<open>key\<close>, \<^verbatim>\<open>value\<close>, \<^verbatim>\<open>expiryCallback\<close>, and the error
  callback given to \<^verbatim>\<open>toSync\<close>).\<close>

record ('k, 'v) timeout =
  due :: int
  t_key :: 'k
  t_value :: 'v
  t_expiryCallback :: "('k, 'v) MapExpiryCallback option"
  t_errorCallback :: "ErrorCallback option"

text \<open>The calls made to user functions, in order, and the rejections nobody handled.\<close>

datatype ('k, 'v) event =
    ExpiryCallbackCalled "('k, 'v) MapExpiryCallback" 'k 'v "('k, 'v) view"
  | ForEachCallbackCalled "('k, 'v) MapForEachCallback" 'v 'k "('k, 'v) view"
  | ErrorCallbackCalled ErrorCallback js_error
  | UnhandledRejection js_error

record ('k, 'v) ExpiringMap =
  priv_options :: "('k, 'v) ExpiringMapOptions option"
  priv_map :: "('k \<times> ('k, 'v) entry) list"
  timers :: "(timer_id \<times> ('k, 'v) timeout) list"
  next_timer :: timer_id
  clock :: int
  trace :: "('k, 'v) event list"

text \<open>The constructor, at clock value \<open>t\<close> with no timer pending.\<close>

definition em_new :: "('k, 'v) ExpiringMapOptions option \<Rightarrow> int \<Rightarrow> ('k, 'v) ExpiringMap" where
  "em_new opts t =
     \<lparr>priv_options = opts, priv_map = [], timers = [], next_timer = 0, clock = t, trace = []\<rparr>"

text \<open>\<^verbatim>\<open>this.#options?.field\<close>\<close>

definition opt_defaultExpiryMs :: "('k, 'v) ExpiringMap \<Rightarrow> int option" where
  "opt_defaultExpiryMs w =
     (case priv_options w of None \<Rightarrow> None | Some opts \<Rightarrow> defaultExpiryMs opts)"

definition opt_defaultExpiryCallback ::
  "('k, 'v) ExpiringMap \<Rightarrow> ('k, 'v) MapExpiryCallback option" where
  "opt_defaultExpiryCallback w =
     (case priv_options w of None \<Rightarrow> None | Some opts \<Rightarrow> defaultExpiryCallback opts)"

definition opt_expireErrorCallback :: "('k, 'v) ExpiringMap \<Rightarrow> ErrorCallback option" where
  "opt_expireErrorCallback w =
     (case priv_options w of None \<Rightarrow> None | Some opts \<Rightarrow> expireErrorCallback opts)"

subsection \<open>The runtime: clock and timers\<close>

text \<open>The timer facility is the runtime's, not the repository's. It is modelled as the
  interface the container consumes: \<^verbatim>\<open>setTimeout\<close> registers a single-shot timer under
  a fresh handle, runnable once the delay has passed; \<^verbatim>\<open>clearTimeout\<close> drops the timer
  of a handle and does nothing for \<^verbatim>\<open>undefined\<close> or a handle that is not pending.\<close>

definition setTimeout ::
  "('k, 'v) timeout \<Rightarrow> ('k, 'v) ExpiringMap \<Rightarrow> timer_id \<times> ('k, 'v) ExpiringMap" where
  "setTimeout c w =
     (next_timer w, w\<lparr>timers := timers w @ [(next_timer w, c)], next_timer := Suc (next_timer w)\<rparr>)"

definition clearTimeout :: "timer_id option \<Rightarrow> ('k, 'v) ExpiringMap \<Rightarrow> ('k, 'v) ExpiringMap" where
  "clearTimeout h w =
     (case h of None \<Rightarrow> w
      | Some i \<Rightarrow> w\<lparr>timers := filter (\<lambda>(j, c). j \<noteq> i) (timers w)\<rparr>)"

text \<open>Time passes between method calls.\<close>

definition advance :: "nat \<Rightarrow> ('k, 'v) ExpiringMap \<Rightarrow> ('k, 'v) ExpiringMap" where
  "advance ms w = w\<lparr>clock := clock w + int ms\<rparr>"

subsection \<open>ExpiringMap: the methods\<close>

definition view_of :: "('k, 'v) ExpiringMap \<Rightarrow> ('k, 'v) view" where
  "view_of w = map (\<lambda>(k, e). (k, entry_value e, expiry e)) (priv_map w)"

definition em_delete :: "'k \<Rightarrow> ('k, 'v) ExpiringMap \<Rightarrow> bool \<times> ('k, 'v) ExpiringMap" where
  "em_delete key w =
     (let w1 = clearTimeout (case Map_get (priv_map w) key of None \<Rightarrow> None | Some e \<Rightarrow> timer e) w
      in (Map_has (priv_map w1) key, w1\<lparr>priv_map := Map_delete (priv_map w1) key\<rparr>))"

definition em_keys :: "('k, 'v) ExpiringMap \<Rightarrow> 'k list" where
  "em_keys w = Map_keys (priv_map w)"

text \<open>\<^verbatim>\<open>for (const key of this.keys()) this.delete(key)\<close>. The iterator of a \<^verbatim>\<open>Map\<close>
  is live, but the body removes only the key just visited, so the loop visits the keys
  present when it starts, in order.\<close>

fun em_clear_loop :: "'k list \<Rightarrow> ('k, 'v) ExpiringMap \<Rightarrow> ('k, 'v) ExpiringMap" where
  "em_clear_loop [] w = w"
| "em_clear_loop (key # ks) w = em_clear_loop ks (snd (em_delete key w))"

definition em_clear :: "('k, 'v) ExpiringMap \<Rightarrow> ('k, 'v) ExpiringMap" where
  "em_clear w = em_clear_loop (em_keys w) w"

definition em_entries :: "('k, 'v) ExpiringMap \<Rightarrow> ('k \<times> 'v) list" where
  "em_entries w = map (\<lambda>(k, e). (k, entry_value e)) (priv_map w)"

definition em_get :: "'k \<Rightarrow> ('k, 'v) ExpiringMap \<Rightarrow> 'v option" where
  "em_get key w = (case Map_get (priv_map w) key of None \<Rightarrow> None | Some e \<Rightarrow> Some (entry_value e))"

definition em_has :: "'k \<Rightarrow> ('k, 'v) ExpiringMap \<Rightarrow> bool" where
  "em_has key w = Map_has (priv_map w) key"

definition em_getExpiry :: "'k \<Rightarrow> ('k, 'v) ExpiringMap \<Rightarrow> int option" where
  "em_getExpiry key w = (case Map_get (priv_map w) key of None \<Rightarrow> None | Some e \<Rightarrow> expiry e)"

definition em_size :: "('k, 'v) ExpiringMap \<Rightarrow> nat" where
  "em_size w = length (priv_map w)"

definition em_values :: "('k, 'v) ExpiringMap \<Rightarrow> 'v list" where
  "em_values w = map snd (em_entries w)"

definition em_iterator :: "('k, 'v) ExpiringMap \<Rightarrow> ('k \<times> 'v) list" where
  "em_iterator w = em_entries w"

text \<open>\<^verbatim>\<open>set(key, value, { expiryMs, expiryCallback } = {})\<close>; it returns \<^verbatim>\<open>this\<close>.\<close>

definition em_set ::
  "'k \<Rightarrow> 'v \<Rightarrow> int option \<Rightarrow> ('k, 'v) MapExpiryCallback option \<Rightarrow>
   ('k, 'v) ExpiringMap \<Rightarrow> ('k, 'v) ExpiringMap" where
  "em_set key v expiryMs callback w =
     (let w1 = snd (em_delete key w);
          expiryMs = (case expiryMs of None \<Rightarrow> opt_defaultExpiryMs w1 | Some ms \<Rightarrow> Some ms);
          callback = (case callback of None \<Rightarrow> opt_defaultExpiryCallback w1 | Some cb \<Rightarrow> Some cb)
      in case expiryMs of
           None \<Rightarrow>
             w1\<lparr>priv_map := Map_set (priv_map w1) key
                   \<lparr>expiry = None, timer = None, expiryCallback = callback, entry_value = v\<rparr>\<rparr>
         | Some ms \<Rightarrow>
             (let (h, w2) =
                    setTimeout \<lparr>due = clock w1 + ms, t_key = key, t_value = v,
                                t_expiryCallback = callback,
                                t_errorCallback = opt_expireErrorCallback w1\<rparr> w1
              in w2\<lparr>priv_map := Map_set (priv_map w2) key
                      \<lparr>expiry = Some (clock w1 + ms), timer = Some h,
                       expiryCallback = callback, entry_value = v\<rparr>\<rparr>))"

text \<open>\<^verbatim>\<open>clearExpiry\<close> assigns to the fields of the stored entry object, which stays where
  it is in the \<^verbatim>\<open>Map\<close>.\<close>

definition em_clearExpiry :: "'k \<Rightarrow> ('k, 'v) ExpiringMap \<Rightarrow> bool \<times> ('k, 'v) ExpiringMap" where
  "em_clearExpiry key w =
     (case Map_get (priv_map w) key of
        Some e \<Rightarrow>
          (let w1 = clearTimeout (timer e) w
           in (True, w1\<lparr>priv_map := Map_set (priv_map w1) key (e\<lparr>expiry := None, timer := None\<rparr>)\<rparr>))
      | None \<Rightarrow> (False, w))"

definition em_setExpiry :: "'k \<Rightarrow> int \<Rightarrow> ('k, 'v) ExpiringMap \<Rightarrow> bool \<times> ('k, 'v) ExpiringMap" where
  "em_setExpiry key msFromNow w =
     (case Map_get (priv_map w) key of
        Some e \<Rightarrow> (True, em_set key (entry_value e) (Some msFromNow) (expiryCallback e) w)
      | None \<Rightarrow> (False, w))"

definition em_setMinimumExpiry ::
  "'k \<Rightarrow> int \<Rightarrow> ('k, 'v) ExpiringMap \<Rightarrow> bool \<times> ('k, 'v) ExpiringMap" where
  "em_setMinimumExpiry key minimumMsFromNow w =
     (case em_getExpiry key w of
        Some oldExpiry \<Rightarrow>
          (let targetExpiry = clock w + minimumMsFromNow
           in if targetExpiry > oldExpiry then em_setExpiry key minimumMsFromNow w
              else (True, w))
      | None \<Rightarrow> (False, w))"

text \<open>Calling an expiry callback: the call is recorded with what the container shows at
  that moment.\<close>

definition call_expiryCallback ::
  "('k, 'v) MapExpiryCallback \<Rightarrow> 'k \<Rightarrow> 'v \<Rightarrow> ('k, 'v) ExpiringMap \<Rightarrow>
   cb_result \<times> ('k, 'v) ExpiringMap" where
  "call_expiryCallback cb key v w =
     (cb key v (view_of w),
      w\<lparr>trace := trace w @ [ExpiryCallbackCalled cb key v (view_of w)]\<rparr>)"

text \<open>\<^verbatim>\<open>async expire(key)\<close>: the promise it returns and the state it leaves.\<close>

definition em_expire :: "'k \<Rightarrow> ('k, 'v) ExpiringMap \<Rightarrow> bool promise \<times> ('k, 'v) ExpiringMap" where
  "em_expire key w =
     (case Map_get (priv_map w) key of
        Some e \<Rightarrow>
          (let w1 = snd (em_delete key w)
           in case expiryCallback e of
                Some cb \<Rightarrow>
                  (let (r, w2) = call_expiryCallback cb key (entry_value e) w1
                   in (case awaited r of
                         Fulfilled u \<Rightarrow> Fulfilled True
                       | Rejected err \<Rightarrow> Rejected err
                       | Pending \<Rightarrow> Pending, w2))
              | None \<Rightarrow> (Fulfilled True, w1))
      | None \<Rightarrow> (Fulfilled False, w))"

text \<open>\<^verbatim>\<open>for (const key of this.keys()) expiries.push(this.expire(key))\<close>. Each call of
  \<^verbatim>\<open>expire\<close> runs up to its \<^verbatim>\<open>await\<close> before the next one starts, so every entry is
  removed and every callback is called inside the loop; only the settling is awaited
  afterwards.\<close>

fun em_expireAll_loop ::
  "'k list \<Rightarrow> ('k, 'v) ExpiringMap \<Rightarrow> bool promise list \<Rightarrow>
   bool promise list \<times> ('k, 'v) ExpiringMap" where
  "em_expireAll_loop [] w expiries = (expiries, w)"
| "em_expireAll_loop (key # ks) w expiries =
     (let (p, w1) = em_expire key w in em_expireAll_loop ks w1 (expiries @ [p]))"

definition em_expireAll :: "('k, 'v) ExpiringMap \<Rightarrow> unit promise list \<times> ('k, 'v) ExpiringMap" where
  "em_expireAll w =
     (let (expiries, w1) = em_expireAll_loop (em_keys w) w [] in (Promise_all expiries, w1))"

text \<open>\<^verbatim>\<open>async forEach(callbackfn)\<close>. A callback that throws inside the loop ends the
  loop and rejects the promise of \<^verbatim>\<open>forEach\<close>; otherwise what the callbacks returned is
  awaited with \<^verbatim>\<open>Promise.all\<close>.\<close>

fun em_forEach_loop ::
  "('k, 'v) MapForEachCallback \<Rightarrow> ('k \<times> 'v) list \<Rightarrow> ('k, 'v) ExpiringMap \<Rightarrow> unit promise list \<Rightarrow>
   (js_error + unit promise list) \<times> ('k, 'v) ExpiringMap" where
  "em_forEach_loop callbackfn [] w promises = (Inr promises, w)"
| "em_forEach_loop callbackfn ((k, v) # es) w promises =
     (let w1 = w\<lparr>trace := trace w @ [ForEachCallbackCalled callbackfn v k (view_of w)]\<rparr>
      in case callbackfn v k (view_of w) of
           Threw err \<Rightarrow> (Inl err, w1)
         | r \<Rightarrow> em_forEach_loop callbackfn es w1 (promises @ [awaited r]))"

definition em_forEach ::
  "('k, 'v) MapForEachCallback \<Rightarrow> ('k, 'v) ExpiringMap \<Rightarrow>
   unit promise list \<times> ('k, 'v) ExpiringMap" where
  "em_forEach callbackfn w =
     (case em_forEach_loop callbackfn (em_entries w) w [] of
        (Inl err, w1) \<Rightarrow> ([Rejected err], w1)
      | (Inr promises, w1) \<Rightarrow> (Promise_all promises, w1))"

subsection \<open>toSync and the firing of a timer\<close>

text \<open>\<^verbatim>\<open>toSync(asyncFunc, errorCallback)\<close> returns a function that calls
  \<^verbatim>\<open>asyncFunc\<close> and attaches a \<^verbatim>\<open>catch\<close> handler, which calls \<^verbatim>\<open>errorCallback\<close> if
  there is one. If the handler itself throws, the promise of \<^verbatim>\<open>catch\<close> is rejected and
  nothing handles it.\<close>

definition toSync ::
  "(('k, 'v) ExpiringMap \<Rightarrow> unit promise \<times> ('k, 'v) ExpiringMap) \<Rightarrow> ErrorCallback option \<Rightarrow>
   ('k, 'v) ExpiringMap \<Rightarrow> ('k, 'v) ExpiringMap" where
  "toSync asyncFunc errorCallback w =
     (case asyncFunc w of
        (Rejected err, w1) \<Rightarrow>
          (case errorCallback of
             Some f \<Rightarrow>
               (let w2 = w1\<lparr>trace := trace w1 @ [ErrorCallbackCalled f err]\<rparr>
                in case f err of
                     None \<Rightarrow> w2
                   | Some err2 \<Rightarrow> w2\<lparr>trace := trace w2 @ [UnhandledRejection err2]\<rparr>)
           | None \<Rightarrow> w1)
      | (_, w1) \<Rightarrow> w1)"

text \<open>The async arrow function that \<^verbatim>\<open>set\<close> hands to \<^verbatim>\<open>toSync\<close>.\<close>

definition timer_body ::
  "('k, 'v) timeout \<Rightarrow> ('k, 'v) ExpiringMap \<Rightarrow> unit promise \<times> ('k, 'v) ExpiringMap" where
  "timer_body c w =
     (let w1 = snd (em_delete (t_key c) w)
      in case t_expiryCallback c of
           Some cb \<Rightarrow>
             (let (r, w2) = call_expiryCallback cb (t_key c) (t_value c) w1 in (awaited r, w2))
         | None \<Rightarrow> (Fulfilled (), w1))"

text \<open>The runtime runs the timer of handle \<open>h\<close>: possible only if it is pending and
  due; the timer is single-shot, so it is no longer pending when its function runs.\<close>

definition fire :: "timer_id \<Rightarrow> ('k, 'v) ExpiringMap \<Rightarrow> ('k, 'v) ExpiringMap option" where
  "fire h w =
     (case map_of (timers w) h of
        None \<Rightarrow> None
      | Some c \<Rightarrow>
          if clock w < due c then None
          else Some (toSync (timer_body c) (t_errorCallback c) (clearTimeout (Some h) w)))"


subsection \<open>A sequence of insertions\<close>

text \<open>\<^verbatim>\<open>map.set(key, value, { expiryMs, expiryCallback })\<close> for each element in turn,
  as in the loop of the test "entries and iterator functionality".\<close>

fun em_set_all ::
  "('k \<times> 'v \<times> int option \<times> ('k, 'v) MapExpiryCallback option) list \<Rightarrow>
   ('k, 'v) ExpiringMap \<Rightarrow> ('k, 'v) ExpiringMap" where
  "em_set_all [] w = w"
| "em_set_all ((key, v, expiryMs, callback) # ins) w =
     em_set_all ins (em_set key v expiryMs callback w)"

subsection \<open>Sample user functions\<close>

text \<open>User functions for the examples: callbacks that return, throw, return a promise
  that is fulfilled or rejected or never settles, and error callbacks that return or
  throw.\<close>

definition cb_returns :: "'a \<Rightarrow> 'b \<Rightarrow> 'c \<Rightarrow> cb_result" where
  "cb_returns a b c = Returned"

definition cb_throws :: "'a \<Rightarrow> 'b \<Rightarrow> 'c \<Rightarrow> cb_result" where
  "cb_throws a b c = Threw (JsError 1)"

definition cb_resolves :: "'a \<Rightarrow> 'b \<Rightarrow> 'c \<Rightarrow> cb_result" where
  "cb_resolves a b c = Resolved"

definition cb_rejects :: "'a \<Rightarrow> 'b \<Rightarrow> 'c \<Rightarrow> cb_result" where
  "cb_rejects a b c = RejectedWith (JsError 2)"


text \<open>Expiry callbacks of \<^verbatim>\<open>ExpiringSet\<close> take the value and the set.\<close>

definition scb_returns :: "'a \<Rightarrow> 'b \<Rightarrow> cb_result" where
  "scb_returns a b = Returned"

definition scb_throws :: "'a \<Rightarrow> 'b \<Rightarrow> cb_result" where
  "scb_throws a b = Threw (JsError 1)"

definition scb_resolves :: "'a \<Rightarrow> 'b \<Rightarrow> cb_result" where
  "scb_resolves a b = Resolved"

definition scb_rejects :: "'a \<Rightarrow> 'b \<Rightarrow> cb_result" where
  "scb_rejects a b = RejectedWith (JsError 2)"


definition ec_returns :: ErrorCallback where
  "ec_returns err = None"

definition ec_throws :: ErrorCallback where
  "ec_throws err = Some (JsError 9)"

subsection \<open>ExpiringMap: the representation invariant\<close>

text \<open>What holds of every state the constructor and the methods produce: the keys of
  \<^verbatim>\<open>#map\<close> are distinct; pending timers have distinct handles below the next fresh
  one; every pending timer belongs to the entry stored under its key; an entry has a
  timer exactly when it has an expiry, and its pending timer holds the entry's key,
  value and callback; an entry without callback exists only when the options give no
  default callback.\<close>

definition keys_distinct :: "('k, 'v) ExpiringMap \<Rightarrow> bool" where
  "keys_distinct w = distinct (Map_keys (priv_map w))"

definition timers_fresh :: "('k, 'v) ExpiringMap \<Rightarrow> bool" where
  "timers_fresh w =
     (distinct (map fst (timers w)) \<and> (\<forall>(h, c) \<in> set (timers w). h < next_timer w))"

definition timers_owned :: "('k, 'v) ExpiringMap \<Rightarrow> bool" where
  "timers_owned w =
     (\<forall>(h, c) \<in> set (timers w).
        case Map_get (priv_map w) (t_key c) of None \<Rightarrow> False | Some e \<Rightarrow> timer e = Some h)"

definition entries_armed :: "('k, 'v) ExpiringMap \<Rightarrow> bool" where
  "entries_armed w =
     (\<forall>(k, e) \<in> set (priv_map w).
        case timer e of
          None \<Rightarrow> expiry e = None
        | Some h \<Rightarrow>
            (case expiry e of
               None \<Rightarrow> False
             | Some t \<Rightarrow>
                 map_of (timers w) h =
                   Some \<lparr>due = t, t_key = k, t_value = entry_value e,
                         t_expiryCallback = expiryCallback e,
                         t_errorCallback = opt_expireErrorCallback w\<rparr>))"

definition defaults_applied :: "('k, 'v) ExpiringMap \<Rightarrow> bool" where
  "defaults_applied w =
     (\<forall>(k, e) \<in> set (priv_map w).
        expiryCallback e = None \<longrightarrow> opt_defaultExpiryCallback w = None)"

definition em_inv :: "('k, 'v) ExpiringMap \<Rightarrow> bool" where
  "em_inv w =
     (keys_distinct w \<and> timers_fresh w \<and> timers_owned w \<and> entries_armed w \<and>
      defaults_applied w)"

text \<open>The states of a map: what the constructor and the methods produce, with time
  passing and timers firing in between.\<close>

inductive em_reachable :: "('k, 'v) ExpiringMap \<Rightarrow> bool" where
  "em_reachable (em_new opts t)"
| "em_reachable w \<Longrightarrow> em_reachable (em_set key v expiryMs callback w)"
| "em_reachable w \<Longrightarrow> em_reachable (snd (em_delete key w))"
| "em_reachable w \<Longrightarrow> em_reachable (em_clear w)"
| "em_reachable w \<Longrightarrow> em_reachable (snd (em_clearExpiry key w))"
| "em_reachable w \<Longrightarrow> em_reachable (snd (em_setExpiry key ms w))"
| "em_reachable w \<Longrightarrow> em_reachable (snd (em_setMinimumExpiry key ms w))"
| "em_reachable w \<Longrightarrow> em_reachable (snd (em_expire key w))"
| "em_reachable w \<Longrightarrow> em_reachable (snd (em_expireAll w))"
| "em_reachable w \<Longrightarrow> em_reachable (snd (em_forEach f w))"
| "em_reachable w \<Longrightarrow> fire h w = Some w' \<Longrightarrow> em_reachable w'"
| "em_reachable w \<Longrightarrow> em_reachable (advance n w)"

subsection \<open>ExpiringSet: the state\<close>

text \<open>\<^verbatim>\<open>ExpiringSet\<close> is written out in the source as a class of its own, with the
  methods of \<^verbatim>\<open>ExpiringMap\<close> minus \<^verbatim>\<open>get\<close>; its entries hold no value and its
  callbacks take the value and the set. It is embedded in the same way, with its own
  state: the names of its fields and of the runtime functions on its state start with
  \<open>s_\<close>.\<close>

text \<open>What a user function can read off the set it is handed: each value with its
  expiry, in iteration order.\<close>

type_synonym 'k set_view = "('k \<times> int option) list"

type_synonym 'k SetExpiryCallback = "'k \<Rightarrow> 'k set_view \<Rightarrow> cb_result"

type_synonym 'k SetForEachCallback = "'k \<Rightarrow> 'k \<Rightarrow> 'k set_view \<Rightarrow> cb_result"

record 'k ExpiringSetOptions =
  s_defaultExpiryMs :: "int option"
  s_defaultExpiryCallback :: "'k SetExpiryCallback option"
  s_expireErrorCallback :: "ErrorCallback option"

record 'k set_entry =
  s_expiry :: "int option"
  s_timer :: "timer_id option"
  s_expiryCallback :: "'k SetExpiryCallback option"

text \<open>A pending timer of the set: what the closure built in \<^verbatim>\<open>add\<close> captured
  (\<^verbatim>\<open>value\<close>, \<^verbatim>\<open>expiryCallback\<close> and the error callback given to \<^verbatim>\<open>toSync\<close>).\<close>

record 'k set_timeout =
  s_due :: int
  s_t_value :: 'k
  s_t_expiryCallback :: "'k SetExpiryCallback option"
  s_t_errorCallback :: "ErrorCallback option"

datatype 'k set_event =
    SetExpiryCallbackCalled "'k SetExpiryCallback" 'k "'k set_view"
  | SetForEachCallbackCalled "'k SetForEachCallback" 'k 'k "'k set_view"
  | SetErrorCallbackCalled ErrorCallback js_error
  | SetUnhandledRejection js_error

record 'k ExpiringSet =
  s_priv_options :: "'k ExpiringSetOptions option"
  s_priv_map :: "('k \<times> 'k set_entry) list"
  s_timers :: "(timer_id \<times> 'k set_timeout) list"
  s_next_timer :: timer_id
  s_clock :: int
  s_trace :: "'k set_event list"

definition es_new :: "'k ExpiringSetOptions option \<Rightarrow> int \<Rightarrow> 'k ExpiringSet" where
  "es_new opts t =
     \<lparr>s_priv_options = opts, s_priv_map = [], s_timers = [], s_next_timer = 0, s_clock = t,
      s_trace = []\<rparr>"

definition s_opt_defaultExpiryMs :: "'k ExpiringSet \<Rightarrow> int option" where
  "s_opt_defaultExpiryMs s =
     (case s_priv_options s of None \<Rightarrow> None | Some opts \<Rightarrow> s_defaultExpiryMs opts)"

definition s_opt_defaultExpiryCallback :: "'k ExpiringSet \<Rightarrow> 'k SetExpiryCallback option" where
  "s_opt_defaultExpiryCallback s =
     (case s_priv_options s of None \<Rightarrow> None | Some opts \<Rightarrow> s_defaultExpiryCallback opts)"

definition s_opt_expireErrorCallback :: "'k ExpiringSet \<Rightarrow> ErrorCallback option" where
  "s_opt_expireErrorCallback s =
     (case s_priv_options s of None \<Rightarrow> None | Some opts \<Rightarrow> s_expireErrorCallback opts)"

text \<open>The runtime, on the state of the set.\<close>

definition s_setTimeout ::
  "'k set_timeout \<Rightarrow> 'k ExpiringSet \<Rightarrow> timer_id \<times> 'k ExpiringSet" where
  "s_setTimeout c s =
     (s_next_timer s,
      s\<lparr>s_timers := s_timers s @ [(s_next_timer s, c)], s_next_timer := Suc (s_next_timer s)\<rparr>)"

definition s_clearTimeout :: "timer_id option \<Rightarrow> 'k ExpiringSet \<Rightarrow> 'k ExpiringSet" where
  "s_clearTimeout h s =
     (case h of None \<Rightarrow> s
      | Some i \<Rightarrow> s\<lparr>s_timers := filter (\<lambda>(j, c). j \<noteq> i) (s_timers s)\<rparr>)"

definition s_advance :: "nat \<Rightarrow> 'k ExpiringSet \<Rightarrow> 'k ExpiringSet" where
  "s_advance ms s = s\<lparr>s_clock := s_clock s + int ms\<rparr>"

subsection \<open>ExpiringSet: the methods\<close>

definition s_view_of :: "'k ExpiringSet \<Rightarrow> 'k set_view" where
  "s_view_of s = map (\<lambda>(k, e). (k, s_expiry e)) (s_priv_map s)"

definition es_delete :: "'k \<Rightarrow> 'k ExpiringSet \<Rightarrow> bool \<times> 'k ExpiringSet" where
  "es_delete v s =
     (let s1 = s_clearTimeout
                 (case Map_get (s_priv_map s) v of None \<Rightarrow> None | Some e \<Rightarrow> s_timer e) s
      in (Map_has (s_priv_map s1) v, s1\<lparr>s_priv_map := Map_delete (s_priv_map s1) v\<rparr>))"

text \<open>\<^verbatim>\<open>values()\<close> returns \<^verbatim>\<open>this.#map.keys()\<close>; \<^verbatim>\<open>keys()\<close> and the default
  iterator return \<^verbatim>\<open>this.values()\<close>.\<close>

definition es_values :: "'k ExpiringSet \<Rightarrow> 'k list" where
  "es_values s = Map_keys (s_priv_map s)"

definition es_keys :: "'k ExpiringSet \<Rightarrow> 'k list" where
  "es_keys s = es_values s"

definition es_iterator :: "'k ExpiringSet \<Rightarrow> 'k list" where
  "es_iterator s = es_values s"

text \<open>\<^verbatim>\<open>for (const key of this.#map.keys()) this.delete(key)\<close>\<close>

fun es_clear_loop :: "'k list \<Rightarrow> 'k ExpiringSet \<Rightarrow> 'k ExpiringSet" where
  "es_clear_loop [] s = s"
| "es_clear_loop (key # ks) s = es_clear_loop ks (snd (es_delete key s))"

definition es_clear :: "'k ExpiringSet \<Rightarrow> 'k ExpiringSet" where
  "es_clear s = es_clear_loop (Map_keys (s_priv_map s)) s"

text \<open>\<^verbatim>\<open>entries()\<close> yields \<^verbatim>\<open>[key, key]\<close> for every key of \<^verbatim>\<open>#map\<close>.\<close>

definition es_entries :: "'k ExpiringSet \<Rightarrow> ('k \<times> 'k) list" where
  "es_entries s = map (\<lambda>key. (key, key)) (Map_keys (s_priv_map s))"

definition es_has :: "'k \<Rightarrow> 'k ExpiringSet \<Rightarrow> bool" where
  "es_has v s = Map_has (s_priv_map s) v"

definition es_getExpiry :: "'k \<Rightarrow> 'k ExpiringSet \<Rightarrow> int option" where
  "es_getExpiry v s = (case Map_get (s_priv_map s) v of None \<Rightarrow> None | Some e \<Rightarrow> s_expiry e)"

definition es_size :: "'k ExpiringSet \<Rightarrow> nat" where
  "es_size s = length (s_priv_map s)"

text \<open>\<^verbatim>\<open>add(value, { expiryMs, expiryCallback } = {})\<close>; it returns \<^verbatim>\<open>this\<close>.\<close>

definition es_add ::
  "'k \<Rightarrow> int option \<Rightarrow> 'k SetExpiryCallback option \<Rightarrow> 'k ExpiringSet \<Rightarrow> 'k ExpiringSet" where
  "es_add v expiryMs callback s =
     (let s1 = snd (es_delete v s);
          expiryMs = (case expiryMs of None \<Rightarrow> s_opt_defaultExpiryMs s1 | Some ms \<Rightarrow> Some ms);
          callback =
            (case callback of None \<Rightarrow> s_opt_defaultExpiryCallback s1 | Some cb \<Rightarrow> Some cb)
      in case expiryMs of
           None \<Rightarrow>
             s1\<lparr>s_priv_map := Map_set (s_priv_map s1) v
                   \<lparr>s_expiry = None, s_timer = None, s_expiryCallback = callback\<rparr>\<rparr>
         | Some ms \<Rightarrow>
             (let (h, s2) =
                    s_setTimeout \<lparr>s_due = s_clock s1 + ms, s_t_value = v,
                                  s_t_expiryCallback = callback,
                                  s_t_errorCallback = s_opt_expireErrorCallback s1\<rparr> s1
              in s2\<lparr>s_priv_map := Map_set (s_priv_map s2) v
                      \<lparr>s_expiry = Some (s_clock s1 + ms), s_timer = Some h,
                       s_expiryCallback = callback\<rparr>\<rparr>))"

definition es_clearExpiry :: "'k \<Rightarrow> 'k ExpiringSet \<Rightarrow> bool \<times> 'k ExpiringSet" where
  "es_clearExpiry v s =
     (case Map_get (s_priv_map s) v of
        Some e \<Rightarrow>
          (let s1 = s_clearTimeout (s_timer e) s
           in (True,
               s1\<lparr>s_priv_map := Map_set (s_priv_map s1) v (e\<lparr>s_expiry := None, s_timer := None\<rparr>)\<rparr>))
      | None \<Rightarrow> (False, s))"

definition es_setExpiry :: "'k \<Rightarrow> int \<Rightarrow> 'k ExpiringSet \<Rightarrow> bool \<times> 'k ExpiringSet" where
  "es_setExpiry v msFromNow s =
     (case Map_get (s_priv_map s) v of
        Some e \<Rightarrow> (True, es_add v (Some msFromNow) (s_expiryCallback e) s)
      | None \<Rightarrow> (False, s))"

definition es_setMinimumExpiry ::
  "'k \<Rightarrow> int \<Rightarrow> 'k ExpiringSet \<Rightarrow> bool \<times> 'k ExpiringSet" where
  "es_setMinimumExpiry v minimumMsFromNow s =
     (case es_getExpiry v s of
        Some oldExpiry \<Rightarrow>
          (let targetExpiry = s_clock s + minimumMsFromNow
           in if targetExpiry > oldExpiry then es_setExpiry v minimumMsFromNow s
              else (True, s))
      | None \<Rightarrow> (False, s))"

definition s_call_expiryCallback ::
  "'k SetExpiryCallback \<Rightarrow> 'k \<Rightarrow> 'k ExpiringSet \<Rightarrow> cb_result \<times> 'k ExpiringSet" where
  "s_call_expiryCallback cb v s =
     (cb v (s_view_of s),
      s\<lparr>s_trace := s_trace s @ [SetExpiryCallbackCalled cb v (s_view_of s)]\<rparr>)"

definition es_expire :: "'k \<Rightarrow> 'k ExpiringSet \<Rightarrow> bool promise \<times> 'k ExpiringSet" where
  "es_expire v s =
     (case Map_get (s_priv_map s) v of
        Some e \<Rightarrow>
          (let s1 = snd (es_delete v s)
           in case s_expiryCallback e of
                Some cb \<Rightarrow>
                  (let (r, s2) = s_call_expiryCallback cb v s1
                   in (case awaited r of
                         Fulfilled u \<Rightarrow> Fulfilled True
                       | Rejected err \<Rightarrow> Rejected err
                       | Pending \<Rightarrow> Pending, s2))
              | None \<Rightarrow> (Fulfilled True, s1))
      | None \<Rightarrow> (Fulfilled False, s))"

text \<open>\<^verbatim>\<open>for (const value of this.values()) expiries.push(this.expire(value))\<close>\<close>

fun es_expireAll_loop ::
  "'k list \<Rightarrow> 'k ExpiringSet \<Rightarrow> bool promise list \<Rightarrow> bool promise list \<times> 'k ExpiringSet" where
  "es_expireAll_loop [] s expiries = (expiries, s)"
| "es_expireAll_loop (v # vs) s expiries =
     (let (p, s1) = es_expire v s in es_expireAll_loop vs s1 (expiries @ [p]))"

definition es_expireAll :: "'k ExpiringSet \<Rightarrow> unit promise list \<times> 'k ExpiringSet" where
  "es_expireAll s =
     (let (expiries, s1) = es_expireAll_loop (es_values s) s [] in (Promise_all expiries, s1))"

text \<open>\<^verbatim>\<open>forEach\<close> calls \<^verbatim>\<open>callbackfn(entry[1], entry[0], this)\<close> for every entry of
  \<^verbatim>\<open>entries()\<close>.\<close>

fun es_forEach_loop ::
  "'k SetForEachCallback \<Rightarrow> ('k \<times> 'k) list \<Rightarrow> 'k ExpiringSet \<Rightarrow> unit promise list \<Rightarrow>
   (js_error + unit promise list) \<times> 'k ExpiringSet" where
  "es_forEach_loop callbackfn [] s promises = (Inr promises, s)"
| "es_forEach_loop callbackfn ((k, v) # es) s promises =
     (let s1 = s\<lparr>s_trace := s_trace s @ [SetForEachCallbackCalled callbackfn v k (s_view_of s)]\<rparr>
      in case callbackfn v k (s_view_of s) of
           Threw err \<Rightarrow> (Inl err, s1)
         | r \<Rightarrow> es_forEach_loop callbackfn es s1 (promises @ [awaited r]))"

definition es_forEach ::
  "'k SetForEachCallback \<Rightarrow> 'k ExpiringSet \<Rightarrow> unit promise list \<times> 'k ExpiringSet" where
  "es_forEach callbackfn s =
     (case es_forEach_loop callbackfn (es_entries s) s [] of
        (Inl err, s1) \<Rightarrow> ([Rejected err], s1)
      | (Inr promises, s1) \<Rightarrow> (Promise_all promises, s1))"

text \<open>\<^verbatim>\<open>toSync\<close>, the timer function of \<^verbatim>\<open>add\<close> and the firing of a timer, on the
  state of the set.\<close>

definition s_toSync ::
  "('k ExpiringSet \<Rightarrow> unit promise \<times> 'k ExpiringSet) \<Rightarrow> ErrorCallback option \<Rightarrow>
   'k ExpiringSet \<Rightarrow> 'k ExpiringSet" where
  "s_toSync asyncFunc errorCallback s =
     (case asyncFunc s of
        (Rejected err, s1) \<Rightarrow>
          (case errorCallback of
             Some f \<Rightarrow>
               (let s2 = s1\<lparr>s_trace := s_trace s1 @ [SetErrorCallbackCalled f err]\<rparr>
                in case f err of
                     None \<Rightarrow> s2
                   | Some err2 \<Rightarrow> s2\<lparr>s_trace := s_trace s2 @ [SetUnhandledRejection err2]\<rparr>)
           | None \<Rightarrow> s1)
      | (_, s1) \<Rightarrow> s1)"

definition s_timer_body ::
  "'k set_timeout \<Rightarrow> 'k ExpiringSet \<Rightarrow> unit promise \<times> 'k ExpiringSet" where
  "s_timer_body c s =
     (let s1 = snd (es_delete (s_t_value c) s)
      in case s_t_expiryCallback c of
           Some cb \<Rightarrow>
             (let (r, s2) = s_call_expiryCallback cb (s_t_value c) s1 in (awaited r, s2))
         | None \<Rightarrow> (Fulfilled (), s1))"

definition s_fire :: "timer_id \<Rightarrow> 'k ExpiringSet \<Rightarrow> 'k ExpiringSet option" where
  "s_fire h s =
     (case map_of (s_timers s) h of
        None \<Rightarrow> None
      | Some c \<Rightarrow>
          if s_clock s < s_due c then None
          else Some (s_toSync (s_timer_body c) (s_t_errorCallback c) (s_clearTimeout (Some h) s)))"

text \<open>\<^verbatim>\<open>set.add(value, { expiryMs, expiryCallback })\<close> for each element in turn.\<close>

fun es_add_all ::
  "('k \<times> int option \<times> 'k SetExpiryCallback option) list \<Rightarrow> 'k ExpiringSet \<Rightarrow> 'k ExpiringSet" where
  "es_add_all [] s = s"
| "es_add_all ((v, expiryMs, callback) # ins) s = es_add_all ins (es_add v expiryMs callback s)"

subsection \<open>ExpiringSet: the representation invariant\<close>

definition s_keys_distinct :: "'k ExpiringSet \<Rightarrow> bool" where
  "s_keys_distinct s = distinct (Map_keys (s_priv_map s))"

definition s_timers_fresh :: "'k ExpiringSet \<Rightarrow> bool" where
  "s_timers_fresh s =
     (distinct (map fst (s_timers s)) \<and> (\<forall>(h, c) \<in> set (s_timers s). h < s_next_timer s))"

definition s_timers_owned :: "'k ExpiringSet \<Rightarrow> bool" where
  "s_timers_owned s =
     (\<forall>(h, c) \<in> set (s_timers s).
        case Map_get (s_priv_map s) (s_t_value c) of
          None \<Rightarrow> False
        | Some e \<Rightarrow> s_timer e = Some h)"

definition s_entries_armed :: "'k ExpiringSet \<Rightarrow> bool" where
  "s_entries_armed s =
     (\<forall>(k, e) \<in> set (s_priv_map s).
        case s_timer e of
          None \<Rightarrow> s_expiry e = None
        | Some h \<Rightarrow>
            (case s_expiry e of
               None \<Rightarrow> False
             | Some t \<Rightarrow>
                 map_of (s_timers s) h =
                   Some \<lparr>s_due = t, s_t_value = k, s_t_expiryCallback = s_expiryCallback e,
                         s_t_errorCallback = s_opt_expireErrorCallback s\<rparr>))"

definition s_defaults_applied :: "'k ExpiringSet \<Rightarrow> bool" where
  "s_defaults_applied s =
     (\<forall>(k, e) \<in> set (s_priv_map s).
        s_expiryCallback e = None \<longrightarrow> s_opt_defaultExpiryCallback s = None)"

definition es_inv :: "'k ExpiringSet \<Rightarrow> bool" where
  "es_inv s =
     (s_keys_distinct s \<and> s_timers_fresh s \<and> s_timers_owned s \<and> s_entries_armed s \<and>
      s_defaults_applied s)"

text \<open>The states of a set.\<close>

inductive es_reachable :: "'k ExpiringSet \<Rightarrow> bool" where
  "es_reachable (es_new opts t)"
| "es_reachable s \<Longrightarrow> es_reachable (es_add v expiryMs callback s)"
| "es_reachable s \<Longrightarrow> es_reachable (snd (es_delete v s))"
| "es_reachable s \<Longrightarrow> es_reachable (es_clear s)"
| "es_reachable s \<Longrightarrow> es_reachable (snd (es_clearExpiry v s))"
| "es_reachable s \<Longrightarrow> es_reachable (snd (es_setExpiry v ms s))"
| "es_reachable s \<Longrightarrow> es_reachable (snd (es_setMinimumExpiry v ms s))"
| "es_reachable s \<Longrightarrow> es_reachable (snd (es_expire v s))"
| "es_reachable s \<Longrightarrow> es_reachable (snd (es_expireAll s))"
| "es_reachable s \<Longrightarrow> es_reachable (snd (es_forEach f s))"
| "es_reachable s \<Longrightarrow> s_fire h s = Some s' \<Longrightarrow> es_reachable s'"
| "es_reachable s \<Longrightarrow> es_reachable (s_advance n s)"

section \<open>Properties\<close>

subsection \<open>The built-in Map\<close>

lemma Map_has_get: "Map_has m key = (Map_get m key \<noteq> None)"
  by (induction m) (auto simp: Map_has_def Map_get_def)

lemma Map_get_delete:
  "Map_get (Map_delete m key) k = (if k = key then None else Map_get m k)"
  by (induction m) (auto simp: Map_get_def Map_delete_def)

lemma Map_has_delete: "Map_has (Map_delete m key) k = (k \<noteq> key \<and> Map_has m k)"
  by (simp add: Map_has_get Map_get_delete)

lemma Map_keys_delete: "Map_keys (Map_delete m key) = removeAll key (Map_keys m)"
  by (induction m) (auto simp: Map_keys_def Map_delete_def)

lemma Map_delete_absent: "\<not> Map_has m key \<Longrightarrow> Map_delete m key = m"
  by (induction m) (auto simp: Map_has_def Map_delete_def)

lemma Map_get_set: "Map_get (Map_set m key e) k = (if k = key then Some e else Map_get m k)"
  by (induction m) (auto simp: Map_get_def)

lemma Map_has_set: "Map_has (Map_set m key e) k = (k = key \<or> Map_has m k)"
  by (simp add: Map_has_get Map_get_set)

lemma Map_set_absent: "\<not> Map_has m key \<Longrightarrow> Map_set m key e = m @ [(key, e)]"
  by (induction m) (auto simp: Map_has_def)

lemma Map_keys_set_present: "Map_has m key \<Longrightarrow> Map_keys (Map_set m key e) = Map_keys m"
  by (induction m) (force simp: Map_has_def Map_keys_def)+

lemma Map_set_delete: "Map_set (Map_delete m key) key e = Map_delete m key @ [(key, e)]"
  by (simp add: Map_set_absent Map_has_delete)

lemma Map_set_same: "Map_get m key = Some e \<Longrightarrow> Map_set m key e = m"
  by (induction m) (auto simp: Map_get_def)

lemma length_Map_set_present: "Map_has m key \<Longrightarrow> length (Map_set m key e) = length m"
  by (induction m) (force simp: Map_has_def)+

lemma Map_get_delete_append:
  "Map_get (Map_delete m key @ [(key, e)]) k = (if k = key then Some e else Map_get m k)"
  using Map_get_set [of "Map_delete m key" key e k]
  by (simp add: Map_set_delete Map_get_delete)

subsection \<open>delete and set, unfolded\<close>

lemma em_delete_eq:
  "em_delete key w =
     (Map_has (priv_map w) key,
      w\<lparr>timers := timers (clearTimeout (case Map_get (priv_map w) key of None \<Rightarrow> None
                                         | Some e \<Rightarrow> timer e) w),
        priv_map := Map_delete (priv_map w) key\<rparr>)"
  by (auto simp: em_delete_def clearTimeout_def Let_def split: option.splits)

lemma em_delete_fields [simp]:
  "priv_map (snd (em_delete key w)) = Map_delete (priv_map w) key"
  "priv_options (snd (em_delete key w)) = priv_options w"
  "clock (snd (em_delete key w)) = clock w"
  "trace (snd (em_delete key w)) = trace w"
  "next_timer (snd (em_delete key w)) = next_timer w"
  "fst (em_delete key w) = Map_has (priv_map w) key"
  by (simp_all add: em_delete_eq)

lemma em_delete_timers:
  "timers (snd (em_delete key w)) =
     (case Map_get (priv_map w) key of
        None \<Rightarrow> timers w
      | Some e \<Rightarrow> (case timer e of None \<Rightarrow> timers w
                   | Some h \<Rightarrow> filter (\<lambda>(j, c). j \<noteq> h) (timers w)))"
  by (simp add: em_delete_eq clearTimeout_def split: option.splits)

lemma opt_after_delete [simp]:
  "opt_defaultExpiryMs (snd (em_delete key w)) = opt_defaultExpiryMs w"
  "opt_defaultExpiryCallback (snd (em_delete key w)) = opt_defaultExpiryCallback w"
  "opt_expireErrorCallback (snd (em_delete key w)) = opt_expireErrorCallback w"
  by (simp_all add: opt_defaultExpiryMs_def opt_defaultExpiryCallback_def
      opt_expireErrorCallback_def)

text \<open>What \<^verbatim>\<open>set\<close> stores: the entry comes last, with the callback and the duration
  falling back to the defaults of the options.\<close>

lemma em_set_map:
  "priv_map (em_set key v expiryMs callback w) =
     Map_delete (priv_map w) key @
     [(key, \<lparr>expiry = (case (case expiryMs of None \<Rightarrow> opt_defaultExpiryMs w | Some ms \<Rightarrow> Some ms) of
                        None \<Rightarrow> None | Some ms \<Rightarrow> Some (clock w + ms)),
             timer = (case (case expiryMs of None \<Rightarrow> opt_defaultExpiryMs w | Some ms \<Rightarrow> Some ms) of
                        None \<Rightarrow> None | Some ms \<Rightarrow> Some (next_timer w)),
             expiryCallback = (case callback of None \<Rightarrow> opt_defaultExpiryCallback w
                               | Some cb \<Rightarrow> Some cb),
             entry_value = v\<rparr>)]"
  by (simp add: em_set_def Let_def setTimeout_def Map_set_delete split: option.splits)

lemma em_set_fields [simp]:
  "priv_options (em_set key v expiryMs callback w) = priv_options w"
  "clock (em_set key v expiryMs callback w) = clock w"
  "trace (em_set key v expiryMs callback w) = trace w"
  by (simp_all add: em_set_def Let_def setTimeout_def split: option.splits)

lemma em_setExpiry_getExpiry:
  "em_has key w \<Longrightarrow> em_getExpiry key (snd (em_setExpiry key ms w)) = Some (clock w + ms)"
  by (auto simp: em_has_def Map_has_get em_setExpiry_def em_getExpiry_def em_set_map
      Map_get_delete_append split: option.splits)

subsection \<open>The invariant is established and kept\<close>

lemma map_of_filter_fst:
  "map_of (filter (\<lambda>(j, c). j \<noteq> h) ts) i = (if i = h then None else map_of ts i)"
  by (induction ts) auto

lemma Map_get_SomeD: "Map_get m k = Some e \<Longrightarrow> (k, e) \<in> set m"
  by (simp add: Map_get_def map_of_SomeD)

lemma Map_get_distinct:
  "distinct (Map_keys m) \<Longrightarrow> (k, e) \<in> set m \<Longrightarrow> Map_get m k = Some e"
  by (simp add: Map_get_def Map_keys_def)

lemma set_Map_delete: "set (Map_delete m key) = {(k, e) \<in> set m. k \<noteq> key}"
  by (auto simp: Map_delete_def)

lemma em_inv_new: "em_inv (em_new opts t)"
  by (simp add: em_inv_def em_new_def keys_distinct_def timers_fresh_def timers_owned_def
      entries_armed_def defaults_applied_def Map_keys_def)

lemma entries_armedD:
  assumes "entries_armed w" "(k, e) \<in> set (priv_map w)" "timer e = Some h"
  shows "\<exists>t. expiry e = Some t \<and>
     map_of (timers w) h =
       Some \<lparr>due = t, t_key = k, t_value = entry_value e, t_expiryCallback = expiryCallback e,
             t_errorCallback = opt_expireErrorCallback w\<rparr>"
  using assms unfolding entries_armed_def by (fastforce split: option.splits)

lemma entries_armed_untimed:
  assumes "entries_armed w" "(k, e) \<in> set (priv_map w)"
  shows "(timer e = None) = (expiry e = None)"
  using assms unfolding entries_armed_def by (fastforce split: option.splits)

lemma armed_same_handle:
  assumes "entries_armed w" "(k, e) \<in> set (priv_map w)" "(k', e') \<in> set (priv_map w)"
    "timer e = Some h" "timer e' = Some h"
  shows "k' = k"
  using entries_armedD [OF assms(1,2,4)] entries_armedD [OF assms(1,3,5)] by auto

lemma entries_armedI:
  assumes "\<And>k e. (k, e) \<in> set (priv_map w) \<Longrightarrow> timer e = None \<Longrightarrow> expiry e = None"
    and "\<And>k e h. (k, e) \<in> set (priv_map w) \<Longrightarrow> timer e = Some h \<Longrightarrow>
      \<exists>t. expiry e = Some t \<and> map_of (timers w) h =
       Some \<lparr>due = t, t_key = k, t_value = entry_value e, t_expiryCallback = expiryCallback e,
             t_errorCallback = opt_expireErrorCallback w\<rparr>"
  shows "entries_armed w"
  unfolding entries_armed_def using assms by (fastforce split: option.splits)

lemma keys_distinct_delete: "keys_distinct w \<Longrightarrow> keys_distinct (snd (em_delete key w))"
  by (simp add: keys_distinct_def Map_keys_delete distinct_removeAll)

lemma timers_fresh_delete: "timers_fresh w \<Longrightarrow> timers_fresh (snd (em_delete key w))"
  by (auto simp: timers_fresh_def em_delete_timers distinct_map_filter split: option.splits)

lemma timers_owned_delete: "timers_owned w \<Longrightarrow> timers_owned (snd (em_delete key w))"
  unfolding timers_owned_def
  by (auto simp: em_delete_timers Map_get_delete split: option.splits)

lemma entries_armed_delete:
  assumes "entries_armed w"
  shows "entries_armed (snd (em_delete key w))"
proof (rule entries_armedI)
  fix k e assume "(k, e) \<in> set (priv_map (snd (em_delete key w)))" "timer e = None"
  then show "expiry e = None"
    using entries_armed_untimed [OF assms, of k e] by (simp add: set_Map_delete)
next
  fix k e h
  assume a: "(k, e) \<in> set (priv_map (snd (em_delete key w)))" "timer e = Some h"
  then have in_w: "(k, e) \<in> set (priv_map w)" and ne: "k \<noteq> key"
    by (simp_all add: set_Map_delete)
  from entries_armedD [OF assms in_w a(2)] obtain t where t: "expiry e = Some t"
    "map_of (timers w) h =
       Some \<lparr>due = t, t_key = k, t_value = entry_value e, t_expiryCallback = expiryCallback e,
             t_errorCallback = opt_expireErrorCallback w\<rparr>" by blast
  have "map_of (timers (snd (em_delete key w))) h = map_of (timers w) h"
  proof (cases "Map_get (priv_map w) key")
    case None
    then show ?thesis by (simp add: em_delete_timers)
  next
    case (Some e0)
    show ?thesis
    proof (cases "timer e0")
      case None
      with Some show ?thesis by (simp add: em_delete_timers)
    next
      case (Some h0)
      with \<open>Map_get (priv_map w) key = Some e0\<close>
      have "h \<noteq> h0"
        using armed_same_handle [OF assms Map_get_SomeD in_w, of key e0 h0] a(2) ne by auto
      with Some \<open>Map_get (priv_map w) key = Some e0\<close> show ?thesis
        by (simp add: em_delete_timers map_of_filter_fst)
    qed
  qed
  with t show "\<exists>t. expiry e = Some t \<and>
     map_of (timers (snd (em_delete key w))) h =
       Some \<lparr>due = t, t_key = k, t_value = entry_value e, t_expiryCallback = expiryCallback e,
             t_errorCallback = opt_expireErrorCallback (snd (em_delete key w))\<rparr>"
    by simp
qed

lemma defaults_applied_delete:
  "defaults_applied w \<Longrightarrow> defaults_applied (snd (em_delete key w))"
  unfolding defaults_applied_def by (auto simp: set_Map_delete)

lemma em_inv_delete: "em_inv w \<Longrightarrow> em_inv (snd (em_delete key w))"
  by (simp add: em_inv_def keys_distinct_delete timers_fresh_delete timers_owned_delete
      entries_armed_delete defaults_applied_delete)

lemma em_set_timers:
  "timers (em_set key v expiryMs callback w) =
     timers (snd (em_delete key w)) @
     (case (case expiryMs of None \<Rightarrow> opt_defaultExpiryMs w | Some ms \<Rightarrow> Some ms) of
        None \<Rightarrow> []
      | Some ms \<Rightarrow>
          [(next_timer w,
            \<lparr>due = clock w + ms, t_key = key, t_value = v,
             t_expiryCallback = (case callback of None \<Rightarrow> opt_defaultExpiryCallback w
                                 | Some cb \<Rightarrow> Some cb),
             t_errorCallback = opt_expireErrorCallback w\<rparr>)])"
  by (simp add: em_set_def Let_def setTimeout_def split: option.splits)

lemma em_set_next_timer:
  "next_timer (em_set key v expiryMs callback w) =
     (case (case expiryMs of None \<Rightarrow> opt_defaultExpiryMs w | Some ms \<Rightarrow> Some ms) of
        None \<Rightarrow> next_timer w | Some ms \<Rightarrow> Suc (next_timer w))"
  by (simp add: em_set_def Let_def setTimeout_def split: option.splits)

lemma opt_after_set [simp]:
  "opt_defaultExpiryMs (em_set key v expiryMs callback w) = opt_defaultExpiryMs w"
  "opt_defaultExpiryCallback (em_set key v expiryMs callback w) = opt_defaultExpiryCallback w"
  "opt_expireErrorCallback (em_set key v expiryMs callback w) = opt_expireErrorCallback w"
  by (simp_all add: opt_defaultExpiryMs_def opt_defaultExpiryCallback_def
      opt_expireErrorCallback_def)

text \<open>The shape of the state after \<^verbatim>\<open>set\<close>: the new entry comes last; either it has
  neither timer nor expiry and no timer was added, or it has the fresh handle and the
  timer of that handle was added.\<close>

lemma em_set_shape:
  obtains en where
    "priv_map (em_set key v expiryMs callback w) = Map_delete (priv_map w) key @ [(key, en)]"
    "entry_value en = v"
    "expiryCallback en =
       (case callback of None \<Rightarrow> opt_defaultExpiryCallback w | Some cb \<Rightarrow> Some cb)"
    "(timer en = None \<and> expiry en = None \<and>
      (case expiryMs of None \<Rightarrow> opt_defaultExpiryMs w | Some ms \<Rightarrow> Some ms) = None \<and>
      timers (em_set key v expiryMs callback w) = timers (snd (em_delete key w)) \<and>
      next_timer (em_set key v expiryMs callback w) = next_timer w) \<or>
     (\<exists>ms. (case expiryMs of None \<Rightarrow> opt_defaultExpiryMs w | Some ms \<Rightarrow> Some ms) = Some ms \<and>
        timer en = Some (next_timer w) \<and> expiry en = Some (clock w + ms) \<and>
        timers (em_set key v expiryMs callback w) =
          timers (snd (em_delete key w)) @
          [(next_timer w,
            \<lparr>due = clock w + ms, t_key = key, t_value = v, t_expiryCallback = expiryCallback en,
             t_errorCallback = opt_expireErrorCallback w\<rparr>)] \<and>
        next_timer (em_set key v expiryMs callback w) = Suc (next_timer w))"
proof (cases "case expiryMs of None \<Rightarrow> opt_defaultExpiryMs w | Some ms \<Rightarrow> Some ms")
  case None
  show ?thesis
    by (rule that [of "\<lparr>expiry = None, timer = None,
          expiryCallback = (case callback of None \<Rightarrow> opt_defaultExpiryCallback w
                            | Some cb \<Rightarrow> Some cb), entry_value = v\<rparr>"])
      (simp_all add: em_set_map em_set_timers em_set_next_timer None)
next
  case (Some ms)
  show ?thesis
    by (rule that [of "\<lparr>expiry = Some (clock w + ms), timer = Some (next_timer w),
          expiryCallback = (case callback of None \<Rightarrow> opt_defaultExpiryCallback w
                            | Some cb \<Rightarrow> Some cb), entry_value = v\<rparr>"])
      (simp_all add: em_set_map em_set_timers em_set_next_timer Some)
qed

lemma keys_distinct_set: "keys_distinct w \<Longrightarrow> keys_distinct (em_set key v expiryMs callback w)"
  by (simp add: keys_distinct_def em_set_map Map_keys_def distinct_removeAll
      Map_keys_delete [unfolded Map_keys_def])

lemma timers_fresh_set:
  assumes "timers_fresh w"
  shows "timers_fresh (em_set key v expiryMs callback w)"
proof -
  from assms have "timers_fresh (snd (em_delete key w))" by (rule timers_fresh_delete)
  then show ?thesis
    by (fastforce simp: timers_fresh_def em_set_timers em_set_next_timer split: option.splits)
qed

lemma timers_owned_absent:
  assumes "timers_owned w" "\<not> Map_has (priv_map w) key" "(h, c) \<in> set (timers w)"
  shows "t_key c \<noteq> key"
  using assms unfolding timers_owned_def by (auto simp: Map_has_get split: option.splits)

lemma timers_ownedD:
  assumes "timers_owned w" "(h, c) \<in> set (timers w)"
  shows "\<exists>e. Map_get (priv_map w) (t_key c) = Some e \<and> timer e = Some h"
  using assms unfolding timers_owned_def by (fastforce split: option.splits)

lemma timers_ownedI:
  assumes "\<And>h c. (h, c) \<in> set (timers w) \<Longrightarrow>
    \<exists>e. Map_get (priv_map w) (t_key c) = Some e \<and> timer e = Some h"
  shows "timers_owned w"
  unfolding timers_owned_def using assms by (fastforce split: option.splits)

lemma timers_owned_set:
  assumes "timers_owned w"
  shows "timers_owned (em_set key v expiryMs callback w)"
proof (rule timers_ownedI)
  let ?w1 = "snd (em_delete key w)"
  let ?w2 = "em_set key v expiryMs callback w"
  fix h c assume hc: "(h, c) \<in> set (timers ?w2)"
  have o1: "timers_owned ?w1" using assms by (rule timers_owned_delete)
  have absent: "\<not> Map_has (priv_map ?w1) key" by (simp add: Map_has_delete)
  obtain en where en: "priv_map ?w2 = Map_delete (priv_map w) key @ [(key, en)]"
    and shape: "(timer en = None \<and> expiry en = None \<and>
      (case expiryMs of None \<Rightarrow> opt_defaultExpiryMs w | Some ms \<Rightarrow> Some ms) = None \<and>
      timers ?w2 = timers ?w1 \<and> next_timer ?w2 = next_timer w) \<or>
     (\<exists>ms. (case expiryMs of None \<Rightarrow> opt_defaultExpiryMs w | Some ms \<Rightarrow> Some ms) = Some ms \<and>
        timer en = Some (next_timer w) \<and> expiry en = Some (clock w + ms) \<and>
        timers ?w2 = timers ?w1 @
          [(next_timer w,
            \<lparr>due = clock w + ms, t_key = key, t_value = v, t_expiryCallback = expiryCallback en,
             t_errorCallback = opt_expireErrorCallback w\<rparr>)] \<and>
        next_timer ?w2 = Suc (next_timer w))"
    by (rule em_set_shape [of key v expiryMs callback w]) blast
  from hc shape consider (old) "(h, c) \<in> set (timers ?w1)"
    | (new) "h = next_timer w" "t_key c = key" "timer en = Some (next_timer w)"
    by auto
  then show "\<exists>e. Map_get (priv_map ?w2) (t_key c) = Some e \<and> timer e = Some h"
  proof cases
    case old
    from timers_owned_absent [OF o1 absent old] timers_ownedD [OF o1 old]
    show ?thesis by (simp add: en Map_get_delete_append Map_get_delete)
  next
    case new
    then show ?thesis by (simp add: en Map_get_delete_append)
  qed
qed

lemma map_of_append_fresh:
  "i \<notin> fst ` set ts \<Longrightarrow> map_of (ts @ [(i, c)]) j = (if j = i then Some c else map_of ts j)"
  by (induction ts) auto

lemma map_of_append_old: "map_of ts j = Some c \<Longrightarrow> map_of (ts @ us) j = Some c"
  by (simp add: map_add_Some_iff)

lemma entries_armed_set:
  assumes "entries_armed w" "timers_fresh w"
  shows "entries_armed (em_set key v expiryMs callback w)"
proof -
  let ?w1 = "snd (em_delete key w)"
  let ?w2 = "em_set key v expiryMs callback w"
  have a1: "entries_armed ?w1" using assms(1) by (rule entries_armed_delete)
  have f1: "timers_fresh ?w1" using assms(2) by (rule timers_fresh_delete)
  then have fresh: "next_timer w \<notin> fst ` set (timers ?w1)"
    by (auto simp: timers_fresh_def)
  obtain en where en: "priv_map ?w2 = Map_delete (priv_map w) key @ [(key, en)]"
    and val: "entry_value en = v"
    and shape: "(timer en = None \<and> expiry en = None \<and>
      (case expiryMs of None \<Rightarrow> opt_defaultExpiryMs w | Some ms \<Rightarrow> Some ms) = None \<and>
      timers ?w2 = timers ?w1 \<and> next_timer ?w2 = next_timer w) \<or>
     (\<exists>ms. (case expiryMs of None \<Rightarrow> opt_defaultExpiryMs w | Some ms \<Rightarrow> Some ms) = Some ms \<and>
        timer en = Some (next_timer w) \<and> expiry en = Some (clock w + ms) \<and>
        timers ?w2 = timers ?w1 @
          [(next_timer w,
            \<lparr>due = clock w + ms, t_key = key, t_value = v, t_expiryCallback = expiryCallback en,
             t_errorCallback = opt_expireErrorCallback w\<rparr>)] \<and>
        next_timer ?w2 = Suc (next_timer w))"
    by (rule em_set_shape [of key v expiryMs callback w]) blast
  have ext: "map_of (timers ?w2) h = Some c" if "map_of (timers ?w1) h = Some c" for h c
    using shape that by (auto simp: map_of_append_old simp del: map_of_append)
  show ?thesis
  proof (rule entries_armedI)
    fix k e assume "(k, e) \<in> set (priv_map ?w2)" "timer e = None"
    then show "expiry e = None"
      using entries_armed_untimed [OF a1, of k e] shape by (auto simp: en)
  next
    fix k e h assume a: "(k, e) \<in> set (priv_map ?w2)" "timer e = Some h"
    from a(1) consider (old) "(k, e) \<in> set (priv_map ?w1)" | (new) "k = key" "e = en"
      by (auto simp: en)
    then show "\<exists>t. expiry e = Some t \<and> map_of (timers ?w2) h =
       Some \<lparr>due = t, t_key = k, t_value = entry_value e, t_expiryCallback = expiryCallback e,
             t_errorCallback = opt_expireErrorCallback ?w2\<rparr>"
    proof cases
      case old
      from entries_armedD [OF a1 old a(2)] show ?thesis
        by (auto simp: ext)
    next
      case new
      with a(2) fresh shape val show ?thesis
        by (auto simp: map_of_append_fresh simp del: map_of_append)
    qed
  qed
qed

lemma defaults_applied_set:
  assumes "defaults_applied w"
  shows "defaults_applied (em_set key v expiryMs callback w)"
  using defaults_applied_delete [OF assms, of key]
  unfolding defaults_applied_def
  by (auto simp: em_set_map split: option.splits)

lemma em_inv_set: "em_inv w \<Longrightarrow> em_inv (em_set key v expiryMs callback w)"
  by (simp add: em_inv_def keys_distinct_set timers_fresh_set timers_owned_set
      entries_armed_set defaults_applied_set)

lemma em_inv_cong:
  assumes "priv_map w' = priv_map w" "timers w' = timers w" "next_timer w' = next_timer w"
    "priv_options w' = priv_options w"
  shows "em_inv w' = em_inv w"
  using assms
  by (simp add: em_inv_def keys_distinct_def timers_fresh_def timers_owned_def entries_armed_def
      defaults_applied_def opt_expireErrorCallback_def opt_defaultExpiryCallback_def
      cong: option.case_cong)

lemma em_inv_advance: "em_inv w \<Longrightarrow> em_inv (advance ms w)"
  using em_inv_cong [of "advance ms w" w] by (simp add: advance_def)

lemma em_inv_clear_loop: "em_inv w \<Longrightarrow> em_inv (em_clear_loop ks w)"
  by (induction ks arbitrary: w) (simp_all add: em_inv_delete)

lemma em_inv_clear: "em_inv w \<Longrightarrow> em_inv (em_clear w)"
  by (simp add: em_clear_def em_inv_clear_loop)

lemma em_inv_setExpiry: "em_inv w \<Longrightarrow> em_inv (snd (em_setExpiry key ms w))"
  by (simp add: em_setExpiry_def em_inv_set split: option.splits)

lemma em_inv_setMinimumExpiry: "em_inv w \<Longrightarrow> em_inv (snd (em_setMinimumExpiry key ms w))"
  by (simp add: em_setMinimumExpiry_def Let_def em_inv_setExpiry split: option.splits)

lemma call_expiryCallback_fields [simp]:
  "priv_map (snd (call_expiryCallback cb key v w)) = priv_map w"
  "timers (snd (call_expiryCallback cb key v w)) = timers w"
  "next_timer (snd (call_expiryCallback cb key v w)) = next_timer w"
  "priv_options (snd (call_expiryCallback cb key v w)) = priv_options w"
  "clock (snd (call_expiryCallback cb key v w)) = clock w"
  "trace (snd (call_expiryCallback cb key v w)) =
     trace w @ [ExpiryCallbackCalled cb key v (view_of w)]"
  "fst (call_expiryCallback cb key v w) = cb key v (view_of w)"
  by (simp_all add: call_expiryCallback_def)

lemma em_expire_state:
  "priv_map (snd (em_expire key w)) = Map_delete (priv_map w) key"
  "timers (snd (em_expire key w)) = timers (snd (em_delete key w))"
  "next_timer (snd (em_expire key w)) = next_timer w"
  "priv_options (snd (em_expire key w)) = priv_options w"
  "clock (snd (em_expire key w)) = clock w"
  by (auto simp: em_expire_def Let_def split_beta Map_has_get Map_delete_absent
      em_delete_timers split: option.splits)

lemma em_inv_expire: "em_inv w \<Longrightarrow> em_inv (snd (em_expire key w))"
  using em_inv_cong [of "snd (em_expire key w)" "snd (em_delete key w)"]
  by (simp add: em_expire_state em_inv_delete)

lemma em_inv_expireAll_loop: "em_inv w \<Longrightarrow> em_inv (snd (em_expireAll_loop ks w ps))"
  by (induction ks arbitrary: w ps) (simp_all add: split_beta em_inv_expire)

lemma em_inv_expireAll: "em_inv w \<Longrightarrow> em_inv (snd (em_expireAll w))"
  by (simp add: em_expireAll_def split_beta em_inv_expireAll_loop)

lemma em_forEach_loop_state:
  "priv_map (snd (em_forEach_loop f es w ps)) = priv_map w \<and>
   timers (snd (em_forEach_loop f es w ps)) = timers w \<and>
   next_timer (snd (em_forEach_loop f es w ps)) = next_timer w \<and>
   priv_options (snd (em_forEach_loop f es w ps)) = priv_options w \<and>
   clock (snd (em_forEach_loop f es w ps)) = clock w"
  by (induction f es w ps rule: em_forEach_loop.induct)
    (auto simp: Let_def split: cb_result.splits)

lemma em_forEach_state:
  "priv_map (snd (em_forEach f w)) = priv_map w"
  "timers (snd (em_forEach f w)) = timers w"
  "next_timer (snd (em_forEach f w)) = next_timer w"
  "priv_options (snd (em_forEach f w)) = priv_options w"
  "clock (snd (em_forEach f w)) = clock w"
  using em_forEach_loop_state [of f "em_entries w" w "[]"]
  by (auto simp: em_forEach_def split: prod.splits sum.splits)

lemma em_inv_forEach: "em_inv w \<Longrightarrow> em_inv (snd (em_forEach f w))"
  using em_inv_cong [of "snd (em_forEach f w)" w] by (simp add: em_forEach_state)

lemma set_Map_set_distinct:
  "distinct (Map_keys m) \<Longrightarrow> (k, x) \<in> set (Map_set m key e) \<Longrightarrow>
     (k = key \<and> x = e) \<or> (k \<noteq> key \<and> (k, x) \<in> set m)"
  by (induction m) (force simp: Map_keys_def split: if_splits)+

lemma Map_keys_Map_set_get: "Map_get m key = Some e0 \<Longrightarrow> Map_keys (Map_set m key e) = Map_keys m"
  by (simp add: Map_keys_set_present Map_has_get)

lemma em_clearExpiry_state:
  assumes "Map_get (priv_map w) key = Some e"
  shows "priv_map (snd (em_clearExpiry key w)) =
           Map_set (priv_map w) key (e\<lparr>expiry := None, timer := None\<rparr>)"
    and "timers (snd (em_clearExpiry key w)) = timers (snd (em_delete key w))"
    and "next_timer (snd (em_clearExpiry key w)) = next_timer w"
    and "priv_options (snd (em_clearExpiry key w)) = priv_options w"
    and "clock (snd (em_clearExpiry key w)) = clock w"
    and "trace (snd (em_clearExpiry key w)) = trace w"
    and "fst (em_clearExpiry key w) = True"
  using assms
  by (auto simp: em_clearExpiry_def Let_def clearTimeout_def em_delete_timers
      split: option.splits)

lemma em_clearExpiry_absent:
  "Map_get (priv_map w) key = None \<Longrightarrow> em_clearExpiry key w = (False, w)"
  by (simp add: em_clearExpiry_def)

lemma em_inv_clearExpiry:
  assumes "em_inv w"
  shows "em_inv (snd (em_clearExpiry key w))"
proof (cases "Map_get (priv_map w) key")
  case None
  with assms show ?thesis by (simp add: em_clearExpiry_absent)
next
  case (Some e)
  let ?w' = "snd (em_clearExpiry key w)"
  let ?w1 = "snd (em_delete key w)"
  let ?e' = "e\<lparr>expiry := None, timer := None\<rparr>"
  note st = em_clearExpiry_state [OF Some]
  from assms have inv: "keys_distinct w" "timers_fresh w" "timers_owned w" "entries_armed w"
    "defaults_applied w" by (simp_all add: em_inv_def)
  have inv1: "timers_fresh ?w1" "timers_owned ?w1" "entries_armed ?w1"
    using inv by (simp_all add: timers_fresh_delete timers_owned_delete entries_armed_delete)
  have mem: "(k = key \<and> x = ?e') \<or> (k \<noteq> key \<and> (k, x) \<in> set (priv_map ?w1))"
    if "(k, x) \<in> set (priv_map ?w')" for k x
    using set_Map_set_distinct [of "priv_map w" k x key ?e'] that inv(1)
    by (auto simp: st keys_distinct_def set_Map_delete)
  have kd: "keys_distinct ?w'"
    using inv(1) Some by (simp add: keys_distinct_def st Map_keys_Map_set_get)
  have tf: "timers_fresh ?w'"
    using inv1(1) by (simp add: timers_fresh_def st)
  have own: "timers_owned ?w'"
  proof (rule timers_ownedI)
    fix h c assume hc: "(h, c) \<in> set (timers ?w')"
    then have hc1: "(h, c) \<in> set (timers ?w1)" by (simp add: st)
    have "\<not> Map_has (priv_map ?w1) key" by (simp add: Map_has_delete)
    from timers_owned_absent [OF inv1(2) this hc1] timers_ownedD [OF inv1(2) hc1]
    show "\<exists>e. Map_get (priv_map ?w') (t_key c) = Some e \<and> timer e = Some h"
      by (simp add: st Map_get_set Map_get_delete)
  qed
  have armed: "entries_armed ?w'"
  proof (rule entries_armedI)
    fix k x assume "(k, x) \<in> set (priv_map ?w')" "timer x = None"
    then show "expiry x = None"
      using mem [of k x] entries_armed_untimed [OF inv1(3), of k x] by auto
  next
    fix k x h assume a: "(k, x) \<in> set (priv_map ?w')" "timer x = Some h"
    with mem [of k x] have "(k, x) \<in> set (priv_map ?w1)" by auto
    from entries_armedD [OF inv1(3) this a(2)]
    show "\<exists>t. expiry x = Some t \<and> map_of (timers ?w') h =
       Some \<lparr>due = t, t_key = k, t_value = entry_value x, t_expiryCallback = expiryCallback x,
             t_errorCallback = opt_expireErrorCallback ?w'\<rparr>"
      by (simp add: st opt_expireErrorCallback_def)
  qed
  have dflt: "defaults_applied ?w'"
    unfolding defaults_applied_def
  proof (clarify)
    fix k x assume a: "(k, x) \<in> set (priv_map ?w')" "expiryCallback x = None"
    from mem [OF a(1)] a(2) Map_get_SomeD [OF Some] inv(5)
    show "opt_defaultExpiryCallback ?w' = None"
      by (auto simp: defaults_applied_def st opt_defaultExpiryCallback_def set_Map_delete)
  qed
  from kd tf own armed dflt show ?thesis by (simp add: em_inv_def)
qed

text \<open>Firing the timer of an entry leaves the state that \<^verbatim>\<open>delete\<close> of its key
  leaves, up to the trace.\<close>

lemma toSync_state:
  assumes "\<And>w. priv_map (snd (f w)) = priv_map (g w) \<and> timers (snd (f w)) = timers (g w) \<and>
     next_timer (snd (f w)) = next_timer (g w) \<and> priv_options (snd (f w)) = priv_options (g w) \<and>
     clock (snd (f w)) = clock (g w)"
  shows "priv_map (toSync f ec w) = priv_map (g w) \<and> timers (toSync f ec w) = timers (g w) \<and>
     next_timer (toSync f ec w) = next_timer (g w) \<and>
     priv_options (toSync f ec w) = priv_options (g w) \<and> clock (toSync f ec w) = clock (g w)"
  using assms [of w]
  by (auto simp: toSync_def Let_def split: prod.splits promise.splits option.splits)

lemma timer_body_state:
  "priv_map (snd (timer_body c w)) = priv_map (snd (em_delete (t_key c) w)) \<and>
   timers (snd (timer_body c w)) = timers (snd (em_delete (t_key c) w)) \<and>
   next_timer (snd (timer_body c w)) = next_timer (snd (em_delete (t_key c) w)) \<and>
   priv_options (snd (timer_body c w)) = priv_options (snd (em_delete (t_key c) w)) \<and>
   clock (snd (timer_body c w)) = clock (snd (em_delete (t_key c) w))"
  by (simp add: timer_body_def Let_def split_beta split: option.splits)

lemma filter_fst_idem:
  "filter (\<lambda>(j, c). j \<noteq> h) (filter (\<lambda>(j, c). j \<noteq> h) ts) = filter (\<lambda>(j, c). j \<noteq> h) ts"
  by (induction ts) auto

lemma fire_state:
  assumes "timers_owned w" "fire h w = Some w'"
  obtains c where "map_of (timers w) h = Some c" "due c \<le> clock w"
    "priv_map w' = Map_delete (priv_map w) (t_key c)"
    "timers w' = timers (snd (em_delete (t_key c) w))"
    "next_timer w' = next_timer w" "priv_options w' = priv_options w" "clock w' = clock w"
proof -
  from assms(2) obtain c where c: "map_of (timers w) h = Some c" "due c \<le> clock w"
    and w': "w' = toSync (timer_body c) (t_errorCallback c) (clearTimeout (Some h) w)"
    by (auto simp: fire_def split: option.splits if_splits)
  from c(1) have "(h, c) \<in> set (timers w)" by (rule map_of_SomeD)
  from timers_ownedD [OF assms(1) this] obtain e where
    e: "Map_get (priv_map w) (t_key c) = Some e" "timer e = Some h" by blast
  let ?w0 = "clearTimeout (Some h) w"
  have d: "timers (snd (em_delete (t_key c) ?w0)) = timers (snd (em_delete (t_key c) w))"
    using e by (simp add: em_delete_timers clearTimeout_def filter_fst_idem)
  have s: "priv_map w' = priv_map (snd (em_delete (t_key c) ?w0)) \<and>
     timers w' = timers (snd (em_delete (t_key c) ?w0)) \<and>
     next_timer w' = next_timer (snd (em_delete (t_key c) ?w0)) \<and>
     priv_options w' = priv_options (snd (em_delete (t_key c) ?w0)) \<and>
     clock w' = clock (snd (em_delete (t_key c) ?w0))"
    unfolding w'
    by (rule toSync_state [where g = "\<lambda>w. snd (em_delete (t_key c) w)"]) (rule timer_body_state)
  show ?thesis
    by (rule that [OF c]) (use s d in \<open>simp_all add: clearTimeout_def\<close>)
qed

lemma em_inv_fire:
  assumes "em_inv w" "fire h w = Some w'"
  shows "em_inv w'"
proof -
  from assms(1) have own: "timers_owned w" by (simp add: em_inv_def)
  show ?thesis
  proof (rule fire_state [OF own assms(2)])
    fix c
    assume a: "priv_map w' = Map_delete (priv_map w) (t_key c)"
      "timers w' = timers (snd (em_delete (t_key c) w))"
      "next_timer w' = next_timer w" "priv_options w' = priv_options w"
    have "em_inv w' = em_inv (snd (em_delete (t_key c) w))"
      by (rule em_inv_cong) (simp_all add: a)
    with em_inv_delete [OF assms(1)] show ?thesis by simp
  qed
qed

lemma em_keys_set: "em_keys (em_set key v expiryMs callback w) = removeAll key (em_keys w) @ [key]"
  by (simp add: em_keys_def em_set_map Map_keys_def Map_keys_delete [unfolded Map_keys_def])

lemma view_of_keys: "fst ` set (view_of w) = fst ` set (priv_map w)"
  by (force simp: view_of_def)

lemma em_expire_present:
  assumes "Map_get (priv_map w) key = Some e"
  shows "fst (em_expire key w) =
        (case expiryCallback e of
           None \<Rightarrow> Fulfilled True
         | Some cb \<Rightarrow>
             (case cb key (entry_value e) (view_of (snd (em_delete key w))) of
                Returned \<Rightarrow> Fulfilled True
              | Threw err \<Rightarrow> Rejected err
              | Resolved \<Rightarrow> Fulfilled True
              | RejectedWith err \<Rightarrow> Rejected err
              | NeverSettled \<Rightarrow> Pending))"
    and "snd (em_expire key w) =
        (snd (em_delete key w))
          \<lparr>trace := trace w @
             (case expiryCallback e of
                None \<Rightarrow> []
              | Some cb \<Rightarrow>
                  [ExpiryCallbackCalled cb key (entry_value e)
                     (view_of (snd (em_delete key w)))])\<rparr>"
  using assms
  by (auto simp: em_expire_def Let_def call_expiryCallback_def
      split: option.splits cb_result.splits)

lemma em_expire_absent: "\<not> em_has key w \<Longrightarrow> em_expire key w = (Fulfilled False, w)"
  by (auto simp: em_expire_def em_has_def Map_has_get split: option.splits)

lemma em_expire_removes: "\<not> em_has key (snd (em_expire key w))"
  by (simp add: em_has_def em_expire_state Map_has_delete)

lemma em_clear_loop_map:
  "priv_map (em_clear_loop ks w) = filter (\<lambda>(k, e). k \<notin> set ks) (priv_map w)"
  by (induction ks arbitrary: w) (auto simp: Map_delete_def intro: filter_cong)

lemma em_clear_loop_trace: "trace (em_clear_loop ks w) = trace w"
  by (induction ks arbitrary: w) simp_all

lemma em_clear_map: "priv_map (em_clear w) = []"
  by (force simp: em_clear_def em_clear_loop_map em_keys_def Map_keys_def filter_empty_conv)

lemma timers_owned_empty: "timers_owned w \<Longrightarrow> priv_map w = [] \<Longrightarrow> timers w = []"
  by (cases "timers w") (auto simp: timers_owned_def Map_get_def)

lemma em_delete_cancels:
  assumes "Map_get (priv_map w) key = Some e" "timer e = Some h"
  shows "h \<notin> fst ` set (timers (snd (em_delete key w)))"
  using assms by (auto simp: em_delete_timers)

lemma fire_not_pending: "h \<notin> fst ` set (timers w) \<Longrightarrow> fire h w = None"
  by (force simp: fire_def dest!: map_of_SomeD split: option.splits)

lemma em_delete_no_timer_for_key:
  assumes "em_inv w" "(h, c) \<in> set (timers (snd (em_delete key w)))"
  shows "t_key c \<noteq> key"
proof -
  from assms(1) have "timers_owned (snd (em_delete key w))"
    by (simp add: em_inv_def timers_owned_delete)
  moreover have "\<not> Map_has (priv_map (snd (em_delete key w))) key"
    by (simp add: Map_has_delete)
  ultimately show ?thesis using assms(2) by (rule timers_owned_absent)
qed

lemma em_entries_Map_set:
  "Map_get m key = Some e \<Longrightarrow> entry_value e' = entry_value e \<Longrightarrow>
   map (\<lambda>(k, e). (k, entry_value e)) (Map_set m key e') = map (\<lambda>(k, e). (k, entry_value e)) m"
  by (induction m) (auto simp: Map_get_def)

lemma em_keys_set_all:
  "em_keys (em_set_all ins w) =
     filter (\<lambda>k. k \<notin> fst ` set ins) (em_keys w) @ remdups (map fst ins)"
proof (induction ins arbitrary: w)
  case Nil
  show ?case by simp
next
  case (Cons a ins)
  obtain key v expiryMs callback where a: "a = (key, v, expiryMs, callback)"
    by (cases a) auto
  have f: "filter (\<lambda>k. k \<notin> fst ` set ins) (removeAll key ks) =
           filter (\<lambda>k. k \<notin> fst ` set (a # ins)) ks" for ks
    by (induction ks) (auto simp: a)
  show ?case
    by (auto simp: a Cons.IH em_keys_set f [unfolded a])
qed

lemma view_of_trace [simp]: "view_of (w\<lparr>trace := t\<rparr>) = view_of w"
  by (simp add: view_of_def)

lemma em_forEach_loop_returns:
  assumes "\<forall>(k, v) \<in> set es. \<forall>err. f v k (view_of w) \<noteq> Threw err"
  shows "em_forEach_loop f es w ps =
     (Inr (ps @ map (\<lambda>(k, v). awaited (f v k (view_of w))) es),
      w\<lparr>trace := trace w @ map (\<lambda>(k, v). ForEachCallbackCalled f v k (view_of w)) es\<rparr>)"
  using assms
proof (induction es arbitrary: w ps)
  case Nil
  show ?case by simp
next
  case (Cons a es)
  obtain k v where a: "a = (k, v)" by (cases a)
  let ?w1 = "w\<lparr>trace := trace w @ [ForEachCallbackCalled f v k (view_of w)]\<rparr>"
  from Cons.prems have "\<forall>(k, v) \<in> set es. \<forall>err. f v k (view_of ?w1) \<noteq> Threw err"
    by simp
  from Cons.IH [OF this] Cons.prems show ?case
    by (cases "f v k (view_of w)") (simp_all add: a Let_def)
qed

lemma em_forEach_loop_throws:
  assumes "\<forall>(k, v) \<in> set es1. \<forall>err. f v k (view_of w) \<noteq> Threw err"
    and "f v k (view_of w) = Threw err"
  shows "em_forEach_loop f (es1 @ (k, v) # es2) w ps =
     (Inl err,
      w\<lparr>trace := trace w @
         map (\<lambda>(k, v). ForEachCallbackCalled f v k (view_of w)) (es1 @ [(k, v)])\<rparr>)"
  using assms
proof (induction es1 arbitrary: w ps)
  case Nil
  then show ?case by (simp add: Let_def)
next
  case (Cons a es)
  obtain k' v' where a: "a = (k', v')" by (cases a)
  let ?w1 = "w\<lparr>trace := trace w @ [ForEachCallbackCalled f v' k' (view_of w)]\<rparr>"
  from Cons.prems have "\<forall>(k, v) \<in> set es. \<forall>err. f v k (view_of ?w1) \<noteq> Threw err"
    "f v k (view_of ?w1) = Threw err"
    by simp_all
  from Cons.IH [OF this] Cons.prems(1) show ?case
    by (cases "f v' k' (view_of w)") (simp_all add: a Let_def)
qed

text \<open>The first call that throws, if any, splits the entries.\<close>

lemma first_throw:
  assumes "\<exists>(k, v) \<in> set es. \<exists>err. g k v = Threw err"
  obtains es1 k v es2 err where "es = es1 @ (k, v) # es2"
    "\<forall>(k, v) \<in> set es1. \<forall>err. g k v \<noteq> Threw err" "g k v = Threw err"
  using assms
proof (induction es arbitrary: thesis)
  case Nil
  then show ?case by simp
next
  case (Cons a es)
  obtain k v where a: "a = (k, v)" by (cases a)
  show ?case
  proof (cases "\<exists>err. g k v = Threw err")
    case True
    then obtain err where "g k v = Threw err" by blast
    then show ?thesis using Cons.prems(1) [of "[]" k v es err] by (simp add: a)
  next
    case False
    with Cons.prems(2) have "\<exists>(k, v) \<in> set es. \<exists>err. g k v = Threw err" by (auto simp: a)
    from Cons.IH [OF _ this] obtain es1 k' v' es2 err where
      "es = es1 @ (k', v') # es2" "\<forall>(k, v) \<in> set es1. \<forall>err. g k v \<noteq> Threw err"
      "g k' v' = Threw err" by blast
    with False show ?thesis using Cons.prems(1) [of "(k, v) # es1" k' v' es2 err]
      by (simp add: a)
  qed
qed

lemma set_rejections: "set (rejections ps) = {e. Rejected e \<in> set ps}"
  by (induction ps rule: rejections.induct) auto

lemma Promise_all_rejected:
  "Rejected err \<in> set (Promise_all ps) \<longleftrightarrow> Rejected err \<in> set ps"
  using set_rejections [of ps]
  by (auto simp: Promise_all_def)

lemma Promise_all_rejects:
  assumes "Rejected err \<in> set ps"
  shows "Promise_all ps \<noteq> [] \<and> (\<forall>r \<in> set (Promise_all ps). \<exists>e. r = Rejected e)"
proof -
  from assms set_rejections [of ps] have "rejections ps \<noteq> []" by auto
  then show ?thesis by (auto simp: Promise_all_def)
qed

lemma Promise_all_fulfilled:
  "Promise_all ps = [Fulfilled ()] \<longleftrightarrow> (\<forall>p \<in> set ps. \<exists>x. p = Fulfilled x)"
proof -
  have r: "rejections ps = [] \<longleftrightarrow> (\<forall>p \<in> set ps. \<forall>e. p \<noteq> Rejected e)"
    unfolding set_empty [symmetric] set_rejections by auto
  have p: "list_ex is_Pending ps \<longleftrightarrow> Pending \<in> set ps"
    by (induction ps) (auto elim: is_Pending.elims)
  have "(\<forall>p \<in> set ps. \<exists>x. p = Fulfilled x) \<longleftrightarrow>
        (\<forall>p \<in> set ps. \<forall>e. p \<noteq> Rejected e) \<and> Pending \<notin> set ps"
    by (metis promise.exhaust promise.distinct(1,3))
  with r p show ?thesis
    by (cases "rejections ps") (auto simp: Promise_all_def)
qed



lemma awaited_Rejected: "awaited r = Rejected err \<longleftrightarrow> r = Threw err \<or> r = RejectedWith err"
  by (cases r) auto

lemma awaited_Fulfilled: "awaited r = Fulfilled x \<longleftrightarrow> r = Returned \<or> r = Resolved"
  by (cases r) auto

text \<open>The promise of \<^verbatim>\<open>forEach\<close>, by whether a call of the callback throws.\<close>

lemma em_forEach_no_throw:
  assumes "\<forall>(k, v) \<in> set (em_entries w). \<forall>err. f v k (view_of w) \<noteq> Threw err"
  shows "em_forEach f w =
     (Promise_all (map (\<lambda>(k, v). awaited (f v k (view_of w))) (em_entries w)),
      w\<lparr>trace := trace w @
         map (\<lambda>(k, v). ForEachCallbackCalled f v k (view_of w)) (em_entries w)\<rparr>)"
  by (simp add: em_forEach_def em_forEach_loop_returns [where f = f and w = w, OF assms])

lemma em_forEach_throw:
  assumes "em_entries w = es1 @ (k, v) # es2"
    "\<forall>(k, v) \<in> set es1. \<forall>err. f v k (view_of w) \<noteq> Threw err"
    "f v k (view_of w) = Threw err"
  shows "em_forEach f w =
     ([Rejected err],
      w\<lparr>trace := trace w @
         map (\<lambda>(k, v). ForEachCallbackCalled f v k (view_of w)) (es1 @ [(k, v)])\<rparr>)"
  by (simp add: em_forEach_def assms(1)
      em_forEach_loop_throws [where f = f and w = w and ?es1.0 = es1, OF assms(2,3)])

lemma em_forEach_cases:
  obtains (no_throw) "\<forall>(k, v) \<in> set (em_entries w). \<forall>err. f v k (view_of w) \<noteq> Threw err"
  | (throw) es1 k v es2 err where "em_entries w = es1 @ (k, v) # es2"
    "\<forall>(k, v) \<in> set es1. \<forall>err. f v k (view_of w) \<noteq> Threw err"
    "f v k (view_of w) = Threw err"
proof (cases "\<exists>(k, v) \<in> set (em_entries w). \<exists>err. f v k (view_of w) = Threw err")
  case True
  from first_throw [of "em_entries w" "\<lambda>k v. f v k (view_of w)", OF True] throw
  show ?thesis by blast
next
  case False
  then show ?thesis using no_throw by blast
qed






lemma em_delete_after_clearTimeout:
  assumes "Map_get (priv_map w) key = Some e" "timer e = Some h"
  shows "snd (em_delete key (clearTimeout (Some h) w)) = snd (em_delete key w)"
  using assms by (simp add: em_delete_eq clearTimeout_def filter_fst_idem)

lemma fire_eq:
  assumes "map_of (timers w) h = Some c" "due c \<le> clock w"
    "Map_get (priv_map w) (t_key c) = Some e" "timer e = Some h"
  shows "fire h w =
     Some ((snd (em_delete (t_key c) w))
       \<lparr>trace := trace w @
          (case t_expiryCallback c of
             None \<Rightarrow> []
           | Some cb \<Rightarrow>
               ExpiryCallbackCalled cb (t_key c) (t_value c)
                 (view_of (snd (em_delete (t_key c) w))) #
               (case awaited (cb (t_key c) (t_value c) (view_of (snd (em_delete (t_key c) w)))) of
                  Rejected err \<Rightarrow>
                    (case t_errorCallback c of
                       None \<Rightarrow> []
                     | Some f \<Rightarrow>
                         ErrorCallbackCalled f err #
                         (case f err of None \<Rightarrow> [] | Some err2 \<Rightarrow> [UnhandledRejection err2]))
                | _ \<Rightarrow> []))\<rparr>)"
proof -
  let ?w1 = "snd (em_delete (t_key c) w)"
  have tb: "timer_body c (clearTimeout (Some h) w) =
      (case t_expiryCallback c of
         None \<Rightarrow> (Fulfilled (), ?w1)
       | Some cb \<Rightarrow>
           (awaited (cb (t_key c) (t_value c) (view_of ?w1)),
            ?w1\<lparr>trace := trace w @
               [ExpiryCallbackCalled cb (t_key c) (t_value c) (view_of ?w1)]\<rparr>))"
    by (simp add: timer_body_def Let_def em_delete_after_clearTimeout [OF assms(3,4)]
        call_expiryCallback_def split: option.splits)
  show ?thesis
    using assms(1,2)
    by (simp add: fire_def toSync_def tb Let_def
        split: option.splits promise.splits)
qed

subsection \<open>ExpiringSet: the same facts\<close>

text \<open>The lemmas above, for the state and the methods of \<^verbatim>\<open>ExpiringSet\<close>.\<close>

lemma es_delete_eq:
  "es_delete key s =
     (Map_has (s_priv_map s) key,
      s\<lparr>s_timers := s_timers (s_clearTimeout (case Map_get (s_priv_map s) key of None \<Rightarrow> None
                                         | Some e \<Rightarrow> s_timer e) s),
        s_priv_map := Map_delete (s_priv_map s) key\<rparr>)"
  by (auto simp: es_delete_def s_clearTimeout_def Let_def split: option.splits)

lemma es_delete_fields [simp]:
  "s_priv_map (snd (es_delete key s)) = Map_delete (s_priv_map s) key"
  "s_priv_options (snd (es_delete key s)) = s_priv_options s"
  "s_clock (snd (es_delete key s)) = s_clock s"
  "s_trace (snd (es_delete key s)) = s_trace s"
  "s_next_timer (snd (es_delete key s)) = s_next_timer s"
  "fst (es_delete key s) = Map_has (s_priv_map s) key"
  by (simp_all add: es_delete_eq)

lemma es_delete_timers:
  "s_timers (snd (es_delete key s)) =
     (case Map_get (s_priv_map s) key of
        None \<Rightarrow> s_timers s
      | Some e \<Rightarrow> (case s_timer e of None \<Rightarrow> s_timers s
                   | Some h \<Rightarrow> filter (\<lambda>(j, c). j \<noteq> h) (s_timers s)))"
  by (simp add: es_delete_eq s_clearTimeout_def split: option.splits)

lemma s_opt_after_delete [simp]:
  "s_opt_defaultExpiryMs (snd (es_delete key s)) = s_opt_defaultExpiryMs s"
  "s_opt_defaultExpiryCallback (snd (es_delete key s)) = s_opt_defaultExpiryCallback s"
  "s_opt_expireErrorCallback (snd (es_delete key s)) = s_opt_expireErrorCallback s"
  by (simp_all add: s_opt_defaultExpiryMs_def s_opt_defaultExpiryCallback_def
      s_opt_expireErrorCallback_def)

lemma es_add_map:
  "s_priv_map (es_add key expiryMs callback s) =
     Map_delete (s_priv_map s) key @
     [(key, \<lparr>s_expiry = (case (case expiryMs of None \<Rightarrow> s_opt_defaultExpiryMs s | Some ms \<Rightarrow> Some ms) of
                        None \<Rightarrow> None | Some ms \<Rightarrow> Some (s_clock s + ms)),
             s_timer = (case (case expiryMs of None \<Rightarrow> s_opt_defaultExpiryMs s | Some ms \<Rightarrow> Some ms) of
                        None \<Rightarrow> None | Some ms \<Rightarrow> Some (s_next_timer s)),
             s_expiryCallback = (case callback of None \<Rightarrow> s_opt_defaultExpiryCallback s
                               | Some cb \<Rightarrow> Some cb)\<rparr>)]"
  by (simp add: es_add_def Let_def s_setTimeout_def Map_set_delete split: option.splits)

lemma es_add_fields [simp]:
  "s_priv_options (es_add key expiryMs callback s) = s_priv_options s"
  "s_clock (es_add key expiryMs callback s) = s_clock s"
  "s_trace (es_add key expiryMs callback s) = s_trace s"
  by (simp_all add: es_add_def Let_def s_setTimeout_def split: option.splits)

lemma es_setExpiry_getExpiry:
  "es_has key s \<Longrightarrow> es_getExpiry key (snd (es_setExpiry key ms s)) = Some (s_clock s + ms)"
  by (auto simp: es_has_def Map_has_get es_setExpiry_def es_getExpiry_def es_add_map
      Map_get_delete_append split: option.splits)

lemma es_inv_new: "es_inv (es_new opts t)"
  by (simp add: es_inv_def es_new_def s_keys_distinct_def s_timers_fresh_def s_timers_owned_def
      s_entries_armed_def s_defaults_applied_def Map_keys_def)

lemma s_entries_armedD:
  assumes "s_entries_armed s" "(k, e) \<in> set (s_priv_map s)" "s_timer e = Some h"
  shows "\<exists>t. s_expiry e = Some t \<and>
     map_of (s_timers s) h =
       Some \<lparr>s_due = t, s_t_value = k, s_t_expiryCallback = s_expiryCallback e,
             s_t_errorCallback = s_opt_expireErrorCallback s\<rparr>"
  using assms unfolding s_entries_armed_def by (fastforce split: option.splits)

lemma s_entries_armed_untimed:
  assumes "s_entries_armed s" "(k, e) \<in> set (s_priv_map s)"
  shows "(s_timer e = None) = (s_expiry e = None)"
  using assms unfolding s_entries_armed_def by (fastforce split: option.splits)

lemma s_armed_same_handle:
  assumes "s_entries_armed s" "(k, e) \<in> set (s_priv_map s)" "(k', e') \<in> set (s_priv_map s)"
    "s_timer e = Some h" "s_timer e' = Some h"
  shows "k' = k"
  using s_entries_armedD [OF assms(1,2,4)] s_entries_armedD [OF assms(1,3,5)] by auto

lemma s_entries_armedI:
  assumes "\<And>k e. (k, e) \<in> set (s_priv_map s) \<Longrightarrow> s_timer e = None \<Longrightarrow> s_expiry e = None"
    and "\<And>k e h. (k, e) \<in> set (s_priv_map s) \<Longrightarrow> s_timer e = Some h \<Longrightarrow>
      \<exists>t. s_expiry e = Some t \<and> map_of (s_timers s) h =
       Some \<lparr>s_due = t, s_t_value = k, s_t_expiryCallback = s_expiryCallback e,
             s_t_errorCallback = s_opt_expireErrorCallback s\<rparr>"
  shows "s_entries_armed s"
  unfolding s_entries_armed_def using assms by (fastforce split: option.splits)

lemma s_keys_distinct_delete: "s_keys_distinct s \<Longrightarrow> s_keys_distinct (snd (es_delete key s))"
  by (simp add: s_keys_distinct_def Map_keys_delete distinct_removeAll)

lemma s_timers_fresh_delete: "s_timers_fresh s \<Longrightarrow> s_timers_fresh (snd (es_delete key s))"
  by (auto simp: s_timers_fresh_def es_delete_timers distinct_map_filter split: option.splits)

lemma s_timers_owned_delete: "s_timers_owned s \<Longrightarrow> s_timers_owned (snd (es_delete key s))"
  unfolding s_timers_owned_def
  by (auto simp: es_delete_timers Map_get_delete split: option.splits)

lemma s_entries_armed_delete:
  assumes "s_entries_armed s"
  shows "s_entries_armed (snd (es_delete key s))"
proof (rule s_entries_armedI)
  fix k e assume "(k, e) \<in> set (s_priv_map (snd (es_delete key s)))" "s_timer e = None"
  then show "s_expiry e = None"
    using s_entries_armed_untimed [OF assms, of k e] by (simp add: set_Map_delete)
next
  fix k e h
  assume a: "(k, e) \<in> set (s_priv_map (snd (es_delete key s)))" "s_timer e = Some h"
  then have in_w: "(k, e) \<in> set (s_priv_map s)" and ne: "k \<noteq> key"
    by (simp_all add: set_Map_delete)
  from s_entries_armedD [OF assms in_w a(2)] obtain t where t: "s_expiry e = Some t"
    "map_of (s_timers s) h =
       Some \<lparr>s_due = t, s_t_value = k, s_t_expiryCallback = s_expiryCallback e,
             s_t_errorCallback = s_opt_expireErrorCallback s\<rparr>" by blast
  have "map_of (s_timers (snd (es_delete key s))) h = map_of (s_timers s) h"
  proof (cases "Map_get (s_priv_map s) key")
    case None
    then show ?thesis by (simp add: es_delete_timers)
  next
    case (Some e0)
    show ?thesis
    proof (cases "s_timer e0")
      case None
      with Some show ?thesis by (simp add: es_delete_timers)
    next
      case (Some h0)
      with \<open>Map_get (s_priv_map s) key = Some e0\<close>
      have "h \<noteq> h0"
        using s_armed_same_handle [OF assms Map_get_SomeD in_w, of key e0 h0] a(2) ne by auto
      with Some \<open>Map_get (s_priv_map s) key = Some e0\<close> show ?thesis
        by (simp add: es_delete_timers map_of_filter_fst)
    qed
  qed
  with t show "\<exists>t. s_expiry e = Some t \<and>
     map_of (s_timers (snd (es_delete key s))) h =
       Some \<lparr>s_due = t, s_t_value = k, s_t_expiryCallback = s_expiryCallback e,
             s_t_errorCallback = s_opt_expireErrorCallback (snd (es_delete key s))\<rparr>"
    by simp
qed

lemma s_defaults_applied_delete:
  "s_defaults_applied s \<Longrightarrow> s_defaults_applied (snd (es_delete key s))"
  unfolding s_defaults_applied_def by (auto simp: set_Map_delete)

lemma es_inv_delete: "es_inv s \<Longrightarrow> es_inv (snd (es_delete key s))"
  by (simp add: es_inv_def s_keys_distinct_delete s_timers_fresh_delete s_timers_owned_delete
      s_entries_armed_delete s_defaults_applied_delete)

lemma es_add_timers:
  "s_timers (es_add key expiryMs callback s) =
     s_timers (snd (es_delete key s)) @
     (case (case expiryMs of None \<Rightarrow> s_opt_defaultExpiryMs s | Some ms \<Rightarrow> Some ms) of
        None \<Rightarrow> []
      | Some ms \<Rightarrow>
          [(s_next_timer s,
            \<lparr>s_due = s_clock s + ms, s_t_value = key, s_t_expiryCallback = (case callback of None \<Rightarrow> s_opt_defaultExpiryCallback s
                                 | Some cb \<Rightarrow> Some cb),
             s_t_errorCallback = s_opt_expireErrorCallback s\<rparr>)])"
  by (simp add: es_add_def Let_def s_setTimeout_def split: option.splits)

lemma es_add_next_timer:
  "s_next_timer (es_add key expiryMs callback s) =
     (case (case expiryMs of None \<Rightarrow> s_opt_defaultExpiryMs s | Some ms \<Rightarrow> Some ms) of
        None \<Rightarrow> s_next_timer s | Some ms \<Rightarrow> Suc (s_next_timer s))"
  by (simp add: es_add_def Let_def s_setTimeout_def split: option.splits)

lemma s_opt_after_set [simp]:
  "s_opt_defaultExpiryMs (es_add key expiryMs callback s) = s_opt_defaultExpiryMs s"
  "s_opt_defaultExpiryCallback (es_add key expiryMs callback s) = s_opt_defaultExpiryCallback s"
  "s_opt_expireErrorCallback (es_add key expiryMs callback s) = s_opt_expireErrorCallback s"
  by (simp_all add: s_opt_defaultExpiryMs_def s_opt_defaultExpiryCallback_def
      s_opt_expireErrorCallback_def)

lemma es_add_shape:
  obtains en where
    "s_priv_map (es_add key expiryMs callback s) = Map_delete (s_priv_map s) key @ [(key, en)]"
    "s_expiryCallback en =
       (case callback of None \<Rightarrow> s_opt_defaultExpiryCallback s | Some cb \<Rightarrow> Some cb)"
    "(s_timer en = None \<and> s_expiry en = None \<and>
      (case expiryMs of None \<Rightarrow> s_opt_defaultExpiryMs s | Some ms \<Rightarrow> Some ms) = None \<and>
      s_timers (es_add key expiryMs callback s) = s_timers (snd (es_delete key s)) \<and>
      s_next_timer (es_add key expiryMs callback s) = s_next_timer s) \<or>
     (\<exists>ms. (case expiryMs of None \<Rightarrow> s_opt_defaultExpiryMs s | Some ms \<Rightarrow> Some ms) = Some ms \<and>
        s_timer en = Some (s_next_timer s) \<and> s_expiry en = Some (s_clock s + ms) \<and>
        s_timers (es_add key expiryMs callback s) =
          s_timers (snd (es_delete key s)) @
          [(s_next_timer s,
            \<lparr>s_due = s_clock s + ms, s_t_value = key, s_t_expiryCallback = s_expiryCallback en,
             s_t_errorCallback = s_opt_expireErrorCallback s\<rparr>)] \<and>
        s_next_timer (es_add key expiryMs callback s) = Suc (s_next_timer s))"
proof (cases "case expiryMs of None \<Rightarrow> s_opt_defaultExpiryMs s | Some ms \<Rightarrow> Some ms")
  case None
  show ?thesis
    by (rule that [of "\<lparr>s_expiry = None, s_timer = None,
          s_expiryCallback = (case callback of None \<Rightarrow> s_opt_defaultExpiryCallback s
                            | Some cb \<Rightarrow> Some cb)\<rparr>"])
      (simp_all add: es_add_map es_add_timers es_add_next_timer None)
next
  case (Some ms)
  show ?thesis
    by (rule that [of "\<lparr>s_expiry = Some (s_clock s + ms), s_timer = Some (s_next_timer s),
          s_expiryCallback = (case callback of None \<Rightarrow> s_opt_defaultExpiryCallback s
                            | Some cb \<Rightarrow> Some cb)\<rparr>"])
      (simp_all add: es_add_map es_add_timers es_add_next_timer Some)
qed

lemma s_keys_distinct_set: "s_keys_distinct s \<Longrightarrow> s_keys_distinct (es_add key expiryMs callback s)"
  by (simp add: s_keys_distinct_def es_add_map Map_keys_def distinct_removeAll
      Map_keys_delete [unfolded Map_keys_def])

lemma s_timers_fresh_set:
  assumes "s_timers_fresh s"
  shows "s_timers_fresh (es_add key expiryMs callback s)"
proof -
  from assms have "s_timers_fresh (snd (es_delete key s))" by (rule s_timers_fresh_delete)
  then show ?thesis
    by (fastforce simp: s_timers_fresh_def es_add_timers es_add_next_timer split: option.splits)
qed

lemma s_timers_owned_absent:
  assumes "s_timers_owned s" "\<not> Map_has (s_priv_map s) key" "(h, c) \<in> set (s_timers s)"
  shows "s_t_value c \<noteq> key"
  using assms unfolding s_timers_owned_def by (auto simp: Map_has_get split: option.splits)

lemma s_timers_ownedD:
  assumes "s_timers_owned s" "(h, c) \<in> set (s_timers s)"
  shows "\<exists>e. Map_get (s_priv_map s) (s_t_value c) = Some e \<and> s_timer e = Some h"
  using assms unfolding s_timers_owned_def by (fastforce split: option.splits)

lemma s_timers_ownedI:
  assumes "\<And>h c. (h, c) \<in> set (s_timers s) \<Longrightarrow>
    \<exists>e. Map_get (s_priv_map s) (s_t_value c) = Some e \<and> s_timer e = Some h"
  shows "s_timers_owned s"
  unfolding s_timers_owned_def using assms by (fastforce split: option.splits)

lemma s_timers_owned_set:
  assumes "s_timers_owned s"
  shows "s_timers_owned (es_add key expiryMs callback s)"
proof (rule s_timers_ownedI)
  let ?s1 = "snd (es_delete key s)"
  let ?s2 = "es_add key expiryMs callback s"
  fix h c assume hc: "(h, c) \<in> set (s_timers ?s2)"
  have o1: "s_timers_owned ?s1" using assms by (rule s_timers_owned_delete)
  have absent: "\<not> Map_has (s_priv_map ?s1) key" by (simp add: Map_has_delete)
  obtain en where en: "s_priv_map ?s2 = Map_delete (s_priv_map s) key @ [(key, en)]"
    and shape: "(s_timer en = None \<and> s_expiry en = None \<and>
      (case expiryMs of None \<Rightarrow> s_opt_defaultExpiryMs s | Some ms \<Rightarrow> Some ms) = None \<and>
      s_timers ?s2 = s_timers ?s1 \<and> s_next_timer ?s2 = s_next_timer s) \<or>
     (\<exists>ms. (case expiryMs of None \<Rightarrow> s_opt_defaultExpiryMs s | Some ms \<Rightarrow> Some ms) = Some ms \<and>
        s_timer en = Some (s_next_timer s) \<and> s_expiry en = Some (s_clock s + ms) \<and>
        s_timers ?s2 = s_timers ?s1 @
          [(s_next_timer s,
            \<lparr>s_due = s_clock s + ms, s_t_value = key, s_t_expiryCallback = s_expiryCallback en,
             s_t_errorCallback = s_opt_expireErrorCallback s\<rparr>)] \<and>
        s_next_timer ?s2 = Suc (s_next_timer s))"
    by (rule es_add_shape [of key expiryMs callback s]) blast
  from hc shape consider (old) "(h, c) \<in> set (s_timers ?s1)"
    | (new) "h = s_next_timer s" "s_t_value c = key" "s_timer en = Some (s_next_timer s)"
    by auto
  then show "\<exists>e. Map_get (s_priv_map ?s2) (s_t_value c) = Some e \<and> s_timer e = Some h"
  proof cases
    case old
    from s_timers_owned_absent [OF o1 absent old] s_timers_ownedD [OF o1 old]
    show ?thesis by (simp add: en Map_get_delete_append Map_get_delete)
  next
    case new
    then show ?thesis by (simp add: en Map_get_delete_append)
  qed
qed

lemma s_entries_armed_set:
  assumes "s_entries_armed s" "s_timers_fresh s"
  shows "s_entries_armed (es_add key expiryMs callback s)"
proof -
  let ?s1 = "snd (es_delete key s)"
  let ?s2 = "es_add key expiryMs callback s"
  have a1: "s_entries_armed ?s1" using assms(1) by (rule s_entries_armed_delete)
  have f1: "s_timers_fresh ?s1" using assms(2) by (rule s_timers_fresh_delete)
  then have fresh: "s_next_timer s \<notin> fst ` set (s_timers ?s1)"
    by (auto simp: s_timers_fresh_def)
  obtain en where en: "s_priv_map ?s2 = Map_delete (s_priv_map s) key @ [(key, en)]"
    and shape: "(s_timer en = None \<and> s_expiry en = None \<and>
      (case expiryMs of None \<Rightarrow> s_opt_defaultExpiryMs s | Some ms \<Rightarrow> Some ms) = None \<and>
      s_timers ?s2 = s_timers ?s1 \<and> s_next_timer ?s2 = s_next_timer s) \<or>
     (\<exists>ms. (case expiryMs of None \<Rightarrow> s_opt_defaultExpiryMs s | Some ms \<Rightarrow> Some ms) = Some ms \<and>
        s_timer en = Some (s_next_timer s) \<and> s_expiry en = Some (s_clock s + ms) \<and>
        s_timers ?s2 = s_timers ?s1 @
          [(s_next_timer s,
            \<lparr>s_due = s_clock s + ms, s_t_value = key, s_t_expiryCallback = s_expiryCallback en,
             s_t_errorCallback = s_opt_expireErrorCallback s\<rparr>)] \<and>
        s_next_timer ?s2 = Suc (s_next_timer s))"
    by (rule es_add_shape [of key expiryMs callback s]) blast
  have ext: "map_of (s_timers ?s2) h = Some c" if "map_of (s_timers ?s1) h = Some c" for h c
    using shape that by (auto simp: map_of_append_old simp del: map_of_append)
  show ?thesis
  proof (rule s_entries_armedI)
    fix k e assume "(k, e) \<in> set (s_priv_map ?s2)" "s_timer e = None"
    then show "s_expiry e = None"
      using s_entries_armed_untimed [OF a1, of k e] shape by (auto simp: en)
  next
    fix k e h assume a: "(k, e) \<in> set (s_priv_map ?s2)" "s_timer e = Some h"
    from a(1) consider (old) "(k, e) \<in> set (s_priv_map ?s1)" | (new) "k = key" "e = en"
      by (auto simp: en)
    then show "\<exists>t. s_expiry e = Some t \<and> map_of (s_timers ?s2) h =
       Some \<lparr>s_due = t, s_t_value = k, s_t_expiryCallback = s_expiryCallback e,
             s_t_errorCallback = s_opt_expireErrorCallback ?s2\<rparr>"
    proof cases
      case old
      from s_entries_armedD [OF a1 old a(2)] show ?thesis
        by (auto simp: ext)
    next
      case new
      with a(2) fresh shape show ?thesis
        by (auto simp: map_of_append_fresh simp del: map_of_append)
    qed
  qed
qed

lemma s_defaults_applied_set:
  assumes "s_defaults_applied s"
  shows "s_defaults_applied (es_add key expiryMs callback s)"
  using s_defaults_applied_delete [OF assms, of key]
  unfolding s_defaults_applied_def
  by (auto simp: es_add_map split: option.splits)

lemma es_inv_add: "es_inv s \<Longrightarrow> es_inv (es_add key expiryMs callback s)"
  by (simp add: es_inv_def s_keys_distinct_set s_timers_fresh_set s_timers_owned_set
      s_entries_armed_set s_defaults_applied_set)

lemma es_inv_cong:
  assumes "s_priv_map s' = s_priv_map s" "s_timers s' = s_timers s" "s_next_timer s' = s_next_timer s"
    "s_priv_options s' = s_priv_options s"
  shows "es_inv s' = es_inv s"
  using assms
  by (simp add: es_inv_def s_keys_distinct_def s_timers_fresh_def s_timers_owned_def s_entries_armed_def
      s_defaults_applied_def s_opt_expireErrorCallback_def s_opt_defaultExpiryCallback_def
      cong: option.case_cong)

lemma es_inv_advance: "es_inv s \<Longrightarrow> es_inv (s_advance ms s)"
  using es_inv_cong [of "s_advance ms s" s] by (simp add: s_advance_def)

lemma es_inv_clear_loop: "es_inv s \<Longrightarrow> es_inv (es_clear_loop ks s)"
  by (induction ks arbitrary: s) (simp_all add: es_inv_delete)

lemma es_inv_clear: "es_inv s \<Longrightarrow> es_inv (es_clear s)"
  by (simp add: es_clear_def es_inv_clear_loop)

lemma es_inv_setExpiry: "es_inv s \<Longrightarrow> es_inv (snd (es_setExpiry key ms s))"
  by (simp add: es_setExpiry_def es_inv_add split: option.splits)

lemma es_inv_setMinimumExpiry: "es_inv s \<Longrightarrow> es_inv (snd (es_setMinimumExpiry key ms s))"
  by (simp add: es_setMinimumExpiry_def Let_def es_inv_setExpiry split: option.splits)

lemma s_call_expiryCallback_fields [simp]:
  "s_priv_map (snd (s_call_expiryCallback cb key s)) = s_priv_map s"
  "s_timers (snd (s_call_expiryCallback cb key s)) = s_timers s"
  "s_next_timer (snd (s_call_expiryCallback cb key s)) = s_next_timer s"
  "s_priv_options (snd (s_call_expiryCallback cb key s)) = s_priv_options s"
  "s_clock (snd (s_call_expiryCallback cb key s)) = s_clock s"
  "s_trace (snd (s_call_expiryCallback cb key s)) =
     s_trace s @ [SetExpiryCallbackCalled cb key (s_view_of s)]"
  "fst (s_call_expiryCallback cb key s) = cb key (s_view_of s)"
  by (simp_all add: s_call_expiryCallback_def)

lemma es_expire_state:
  "s_priv_map (snd (es_expire key s)) = Map_delete (s_priv_map s) key"
  "s_timers (snd (es_expire key s)) = s_timers (snd (es_delete key s))"
  "s_next_timer (snd (es_expire key s)) = s_next_timer s"
  "s_priv_options (snd (es_expire key s)) = s_priv_options s"
  "s_clock (snd (es_expire key s)) = s_clock s"
  by (auto simp: es_expire_def Let_def split_beta Map_has_get Map_delete_absent
      es_delete_timers split: option.splits)

lemma es_inv_expire: "es_inv s \<Longrightarrow> es_inv (snd (es_expire key s))"
  using es_inv_cong [of "snd (es_expire key s)" "snd (es_delete key s)"]
  by (simp add: es_expire_state es_inv_delete)

lemma es_inv_expireAll_loop: "es_inv s \<Longrightarrow> es_inv (snd (es_expireAll_loop ks s ps))"
  by (induction ks arbitrary: s ps) (simp_all add: split_beta es_inv_expire)

lemma es_inv_expireAll: "es_inv s \<Longrightarrow> es_inv (snd (es_expireAll s))"
  by (simp add: es_expireAll_def split_beta es_inv_expireAll_loop)

lemma es_forEach_loop_state:
  "s_priv_map (snd (es_forEach_loop f es s ps)) = s_priv_map s \<and>
   s_timers (snd (es_forEach_loop f es s ps)) = s_timers s \<and>
   s_next_timer (snd (es_forEach_loop f es s ps)) = s_next_timer s \<and>
   s_priv_options (snd (es_forEach_loop f es s ps)) = s_priv_options s \<and>
   s_clock (snd (es_forEach_loop f es s ps)) = s_clock s"
  by (induction f es s ps rule: es_forEach_loop.induct)
    (auto simp: Let_def split: cb_result.splits)

lemma es_forEach_state:
  "s_priv_map (snd (es_forEach f s)) = s_priv_map s"
  "s_timers (snd (es_forEach f s)) = s_timers s"
  "s_next_timer (snd (es_forEach f s)) = s_next_timer s"
  "s_priv_options (snd (es_forEach f s)) = s_priv_options s"
  "s_clock (snd (es_forEach f s)) = s_clock s"
  using es_forEach_loop_state [of f "es_entries s" s "[]"]
  by (auto simp: es_forEach_def split: prod.splits sum.splits)

lemma es_inv_forEach: "es_inv s \<Longrightarrow> es_inv (snd (es_forEach f s))"
  using es_inv_cong [of "snd (es_forEach f s)" s] by (simp add: es_forEach_state)

lemma es_clearExpiry_state:
  assumes "Map_get (s_priv_map s) key = Some e"
  shows "s_priv_map (snd (es_clearExpiry key s)) =
           Map_set (s_priv_map s) key (e\<lparr>s_expiry := None, s_timer := None\<rparr>)"
    and "s_timers (snd (es_clearExpiry key s)) = s_timers (snd (es_delete key s))"
    and "s_next_timer (snd (es_clearExpiry key s)) = s_next_timer s"
    and "s_priv_options (snd (es_clearExpiry key s)) = s_priv_options s"
    and "s_clock (snd (es_clearExpiry key s)) = s_clock s"
    and "s_trace (snd (es_clearExpiry key s)) = s_trace s"
    and "fst (es_clearExpiry key s) = True"
  using assms
  by (auto simp: es_clearExpiry_def Let_def s_clearTimeout_def es_delete_timers
      split: option.splits)

lemma es_clearExpiry_absent:
  "Map_get (s_priv_map s) key = None \<Longrightarrow> es_clearExpiry key s = (False, s)"
  by (simp add: es_clearExpiry_def)

lemma es_inv_clearExpiry:
  assumes "es_inv s"
  shows "es_inv (snd (es_clearExpiry key s))"
proof (cases "Map_get (s_priv_map s) key")
  case None
  with assms show ?thesis by (simp add: es_clearExpiry_absent)
next
  case (Some e)
  let ?s' = "snd (es_clearExpiry key s)"
  let ?s1 = "snd (es_delete key s)"
  let ?e' = "e\<lparr>s_expiry := None, s_timer := None\<rparr>"
  note st = es_clearExpiry_state [OF Some]
  from assms have inv: "s_keys_distinct s" "s_timers_fresh s" "s_timers_owned s" "s_entries_armed s"
    "s_defaults_applied s" by (simp_all add: es_inv_def)
  have inv1: "s_timers_fresh ?s1" "s_timers_owned ?s1" "s_entries_armed ?s1"
    using inv by (simp_all add: s_timers_fresh_delete s_timers_owned_delete s_entries_armed_delete)
  have mem: "(k = key \<and> x = ?e') \<or> (k \<noteq> key \<and> (k, x) \<in> set (s_priv_map ?s1))"
    if "(k, x) \<in> set (s_priv_map ?s')" for k x
    using set_Map_set_distinct [of "s_priv_map s" k x key ?e'] that inv(1)
    by (auto simp: st s_keys_distinct_def set_Map_delete)
  have kd: "s_keys_distinct ?s'"
    using inv(1) Some by (simp add: s_keys_distinct_def st Map_keys_Map_set_get)
  have tf: "s_timers_fresh ?s'"
    using inv1(1) by (simp add: s_timers_fresh_def st)
  have own: "s_timers_owned ?s'"
  proof (rule s_timers_ownedI)
    fix h c assume hc: "(h, c) \<in> set (s_timers ?s')"
    then have hc1: "(h, c) \<in> set (s_timers ?s1)" by (simp add: st)
    have "\<not> Map_has (s_priv_map ?s1) key" by (simp add: Map_has_delete)
    from s_timers_owned_absent [OF inv1(2) this hc1] s_timers_ownedD [OF inv1(2) hc1]
    show "\<exists>e. Map_get (s_priv_map ?s') (s_t_value c) = Some e \<and> s_timer e = Some h"
      by (simp add: st Map_get_set Map_get_delete)
  qed
  have armed: "s_entries_armed ?s'"
  proof (rule s_entries_armedI)
    fix k x assume "(k, x) \<in> set (s_priv_map ?s')" "s_timer x = None"
    then show "s_expiry x = None"
      using mem [of k x] s_entries_armed_untimed [OF inv1(3), of k x] by auto
  next
    fix k x h assume a: "(k, x) \<in> set (s_priv_map ?s')" "s_timer x = Some h"
    with mem [of k x] have "(k, x) \<in> set (s_priv_map ?s1)" by auto
    from s_entries_armedD [OF inv1(3) this a(2)]
    show "\<exists>t. s_expiry x = Some t \<and> map_of (s_timers ?s') h =
       Some \<lparr>s_due = t, s_t_value = k, s_t_expiryCallback = s_expiryCallback x,
             s_t_errorCallback = s_opt_expireErrorCallback ?s'\<rparr>"
      by (simp add: st s_opt_expireErrorCallback_def)
  qed
  have dflt: "s_defaults_applied ?s'"
    unfolding s_defaults_applied_def
  proof (clarify)
    fix k x assume a: "(k, x) \<in> set (s_priv_map ?s')" "s_expiryCallback x = None"
    from mem [OF a(1)] a(2) Map_get_SomeD [OF Some] inv(5)
    show "s_opt_defaultExpiryCallback ?s' = None"
      by (auto simp: s_defaults_applied_def st s_opt_defaultExpiryCallback_def set_Map_delete)
  qed
  from kd tf own armed dflt show ?thesis by (simp add: es_inv_def)
qed

lemma s_toSync_state:
  assumes "\<And>s. s_priv_map (snd (f s)) = s_priv_map (g s) \<and> s_timers (snd (f s)) = s_timers (g s) \<and>
     s_next_timer (snd (f s)) = s_next_timer (g s) \<and> s_priv_options (snd (f s)) = s_priv_options (g s) \<and>
     s_clock (snd (f s)) = s_clock (g s)"
  shows "s_priv_map (s_toSync f ec s) = s_priv_map (g s) \<and> s_timers (s_toSync f ec s) = s_timers (g s) \<and>
     s_next_timer (s_toSync f ec s) = s_next_timer (g s) \<and>
     s_priv_options (s_toSync f ec s) = s_priv_options (g s) \<and> s_clock (s_toSync f ec s) = s_clock (g s)"
  using assms [of s]
  by (auto simp: s_toSync_def Let_def split: prod.splits promise.splits option.splits)

lemma s_timer_body_state:
  "s_priv_map (snd (s_timer_body c s)) = s_priv_map (snd (es_delete (s_t_value c) s)) \<and>
   s_timers (snd (s_timer_body c s)) = s_timers (snd (es_delete (s_t_value c) s)) \<and>
   s_next_timer (snd (s_timer_body c s)) = s_next_timer (snd (es_delete (s_t_value c) s)) \<and>
   s_priv_options (snd (s_timer_body c s)) = s_priv_options (snd (es_delete (s_t_value c) s)) \<and>
   s_clock (snd (s_timer_body c s)) = s_clock (snd (es_delete (s_t_value c) s))"
  by (simp add: s_timer_body_def Let_def split_beta split: option.splits)

lemma s_fire_state:
  assumes "s_timers_owned s" "s_fire h s = Some s'"
  obtains c where "map_of (s_timers s) h = Some c" "s_due c \<le> s_clock s"
    "s_priv_map s' = Map_delete (s_priv_map s) (s_t_value c)"
    "s_timers s' = s_timers (snd (es_delete (s_t_value c) s))"
    "s_next_timer s' = s_next_timer s" "s_priv_options s' = s_priv_options s" "s_clock s' = s_clock s"
proof -
  from assms(2) obtain c where c: "map_of (s_timers s) h = Some c" "s_due c \<le> s_clock s"
    and s': "s' = s_toSync (s_timer_body c) (s_t_errorCallback c) (s_clearTimeout (Some h) s)"
    by (auto simp: s_fire_def split: option.splits if_splits)
  from c(1) have "(h, c) \<in> set (s_timers s)" by (rule map_of_SomeD)
  from s_timers_ownedD [OF assms(1) this] obtain e where
    e: "Map_get (s_priv_map s) (s_t_value c) = Some e" "s_timer e = Some h" by blast
  let ?s0 = "s_clearTimeout (Some h) s"
  have d: "s_timers (snd (es_delete (s_t_value c) ?s0)) = s_timers (snd (es_delete (s_t_value c) s))"
    using e by (simp add: es_delete_timers s_clearTimeout_def filter_fst_idem)
  have s: "s_priv_map s' = s_priv_map (snd (es_delete (s_t_value c) ?s0)) \<and>
     s_timers s' = s_timers (snd (es_delete (s_t_value c) ?s0)) \<and>
     s_next_timer s' = s_next_timer (snd (es_delete (s_t_value c) ?s0)) \<and>
     s_priv_options s' = s_priv_options (snd (es_delete (s_t_value c) ?s0)) \<and>
     s_clock s' = s_clock (snd (es_delete (s_t_value c) ?s0))"
    unfolding s'
    by (rule s_toSync_state [where g = "\<lambda>s. snd (es_delete (s_t_value c) s)"]) (rule s_timer_body_state)
  show ?thesis
    by (rule that [OF c]) (use s d in \<open>simp_all add: s_clearTimeout_def\<close>)
qed

lemma es_inv_fire:
  assumes "es_inv s" "s_fire h s = Some s'"
  shows "es_inv s'"
proof -
  from assms(1) have own: "s_timers_owned s" by (simp add: es_inv_def)
  show ?thesis
  proof (rule s_fire_state [OF own assms(2)])
    fix c
    assume a: "s_priv_map s' = Map_delete (s_priv_map s) (s_t_value c)"
      "s_timers s' = s_timers (snd (es_delete (s_t_value c) s))"
      "s_next_timer s' = s_next_timer s" "s_priv_options s' = s_priv_options s"
    have "es_inv s' = es_inv (snd (es_delete (s_t_value c) s))"
      by (rule es_inv_cong) (simp_all add: a)
    with es_inv_delete [OF assms(1)] show ?thesis by simp
  qed
qed

lemma es_values_add: "es_values (es_add key expiryMs callback s) = removeAll key (es_values s) @ [key]"
  by (simp add: es_values_def es_add_map Map_keys_def Map_keys_delete [unfolded Map_keys_def])

lemma s_view_of_keys: "fst ` set (s_view_of s) = fst ` set (s_priv_map s)"
  by (force simp: s_view_of_def)

lemma es_expire_present:
  assumes "Map_get (s_priv_map s) key = Some e"
  shows "fst (es_expire key s) =
        (case s_expiryCallback e of
           None \<Rightarrow> Fulfilled True
         | Some cb \<Rightarrow>
             (case cb key (s_view_of (snd (es_delete key s))) of
                Returned \<Rightarrow> Fulfilled True
              | Threw err \<Rightarrow> Rejected err
              | Resolved \<Rightarrow> Fulfilled True
              | RejectedWith err \<Rightarrow> Rejected err
              | NeverSettled \<Rightarrow> Pending))"
    and "snd (es_expire key s) =
        (snd (es_delete key s))
          \<lparr>s_trace := s_trace s @
             (case s_expiryCallback e of
                None \<Rightarrow> []
              | Some cb \<Rightarrow>
                  [SetExpiryCallbackCalled cb key
                     (s_view_of (snd (es_delete key s)))])\<rparr>"
  using assms
  by (auto simp: es_expire_def Let_def s_call_expiryCallback_def
      split: option.splits cb_result.splits)

lemma es_expire_absent: "\<not> es_has key s \<Longrightarrow> es_expire key s = (Fulfilled False, s)"
  by (auto simp: es_expire_def es_has_def Map_has_get split: option.splits)

lemma es_expire_removes: "\<not> es_has key (snd (es_expire key s))"
  by (simp add: es_has_def es_expire_state Map_has_delete)

lemma es_clear_loop_map:
  "s_priv_map (es_clear_loop ks s) = filter (\<lambda>(k, e). k \<notin> set ks) (s_priv_map s)"
  by (induction ks arbitrary: s) (auto simp: Map_delete_def intro: filter_cong)

lemma es_clear_loop_trace: "s_trace (es_clear_loop ks s) = s_trace s"
  by (induction ks arbitrary: s) simp_all

lemma es_clear_map: "s_priv_map (es_clear s) = []"
  by (force simp: es_clear_def es_clear_loop_map es_values_def Map_keys_def filter_empty_conv)

lemma s_timers_owned_empty: "s_timers_owned s \<Longrightarrow> s_priv_map s = [] \<Longrightarrow> s_timers s = []"
  by (cases "s_timers s") (auto simp: s_timers_owned_def Map_get_def)

lemma es_delete_cancels:
  assumes "Map_get (s_priv_map s) key = Some e" "s_timer e = Some h"
  shows "h \<notin> fst ` set (s_timers (snd (es_delete key s)))"
  using assms by (auto simp: es_delete_timers)

lemma s_fire_not_pending: "h \<notin> fst ` set (s_timers s) \<Longrightarrow> s_fire h s = None"
  by (force simp: s_fire_def dest!: map_of_SomeD split: option.splits)

lemma es_delete_no_timer_for_key:
  assumes "es_inv s" "(h, c) \<in> set (s_timers (snd (es_delete key s)))"
  shows "s_t_value c \<noteq> key"
proof -
  from assms(1) have "s_timers_owned (snd (es_delete key s))"
    by (simp add: es_inv_def s_timers_owned_delete)
  moreover have "\<not> Map_has (s_priv_map (snd (es_delete key s))) key"
    by (simp add: Map_has_delete)
  ultimately show ?thesis using assms(2) by (rule s_timers_owned_absent)
qed

lemma es_values_add_all:
  "es_values (es_add_all ins s) =
     filter (\<lambda>k. k \<notin> fst ` set ins) (es_values s) @ remdups (map fst ins)"
proof (induction ins arbitrary: s)
  case Nil
  show ?case by simp
next
  case (Cons a ins)
  obtain key expiryMs callback where a: "a = (key, expiryMs, callback)"
    by (cases a) auto
  have f: "filter (\<lambda>k. k \<notin> fst ` set ins) (removeAll key ks) =
           filter (\<lambda>k. k \<notin> fst ` set (a # ins)) ks" for ks
    by (induction ks) (auto simp: a)
  show ?case
    by (auto simp: a Cons.IH es_values_add f [unfolded a])
qed

lemma s_view_of_trace [simp]: "s_view_of (s\<lparr>s_trace := t\<rparr>) = s_view_of s"
  by (simp add: s_view_of_def)

lemma es_forEach_loop_returns:
  assumes "\<forall>(k, v) \<in> set es. \<forall>err. f v k (s_view_of s) \<noteq> Threw err"
  shows "es_forEach_loop f es s ps =
     (Inr (ps @ map (\<lambda>(k, v). awaited (f v k (s_view_of s))) es),
      s\<lparr>s_trace := s_trace s @ map (\<lambda>(k, v). SetForEachCallbackCalled f v k (s_view_of s)) es\<rparr>)"
  using assms
proof (induction es arbitrary: s ps)
  case Nil
  show ?case by simp
next
  case (Cons a es)
  obtain k v where a: "a = (k, v)" by (cases a)
  let ?s1 = "s\<lparr>s_trace := s_trace s @ [SetForEachCallbackCalled f v k (s_view_of s)]\<rparr>"
  from Cons.prems have "\<forall>(k, v) \<in> set es. \<forall>err. f v k (s_view_of ?s1) \<noteq> Threw err"
    by simp
  from Cons.IH [OF this] Cons.prems show ?case
    by (cases "f v k (s_view_of s)") (simp_all add: a Let_def)
qed

lemma es_forEach_loop_throws:
  assumes "\<forall>(k, v) \<in> set es1. \<forall>err. f v k (s_view_of s) \<noteq> Threw err"
    and "f v k (s_view_of s) = Threw err"
  shows "es_forEach_loop f (es1 @ (k, v) # es2) s ps =
     (Inl err,
      s\<lparr>s_trace := s_trace s @
         map (\<lambda>(k, v). SetForEachCallbackCalled f v k (s_view_of s)) (es1 @ [(k, v)])\<rparr>)"
  using assms
proof (induction es1 arbitrary: s ps)
  case Nil
  then show ?case by (simp add: Let_def)
next
  case (Cons a es)
  obtain k' v' where a: "a = (k', v')" by (cases a)
  let ?s1 = "s\<lparr>s_trace := s_trace s @ [SetForEachCallbackCalled f v' k' (s_view_of s)]\<rparr>"
  from Cons.prems have "\<forall>(k, v) \<in> set es. \<forall>err. f v k (s_view_of ?s1) \<noteq> Threw err"
    "f v k (s_view_of ?s1) = Threw err"
    by simp_all
  from Cons.IH [OF this] Cons.prems(1) show ?case
    by (cases "f v' k' (s_view_of s)") (simp_all add: a Let_def)
qed

lemma es_forEach_no_throw:
  assumes "\<forall>(k, v) \<in> set (es_entries s). \<forall>err. f v k (s_view_of s) \<noteq> Threw err"
  shows "es_forEach f s =
     (Promise_all (map (\<lambda>(k, v). awaited (f v k (s_view_of s))) (es_entries s)),
      s\<lparr>s_trace := s_trace s @
         map (\<lambda>(k, v). SetForEachCallbackCalled f v k (s_view_of s)) (es_entries s)\<rparr>)"
  by (simp add: es_forEach_def es_forEach_loop_returns [where f = f and s = s, OF assms])

lemma es_forEach_throw:
  assumes "es_entries s = es1 @ (k, v) # es2"
    "\<forall>(k, v) \<in> set es1. \<forall>err. f v k (s_view_of s) \<noteq> Threw err"
    "f v k (s_view_of s) = Threw err"
  shows "es_forEach f s =
     ([Rejected err],
      s\<lparr>s_trace := s_trace s @
         map (\<lambda>(k, v). SetForEachCallbackCalled f v k (s_view_of s)) (es1 @ [(k, v)])\<rparr>)"
  by (simp add: es_forEach_def assms(1)
      es_forEach_loop_throws [where f = f and s = s and ?es1.0 = es1, OF assms(2,3)])

lemma es_forEach_cases:
  obtains (no_throw) "\<forall>(k, v) \<in> set (es_entries s). \<forall>err. f v k (s_view_of s) \<noteq> Threw err"
  | (throw) es1 k v es2 err where "es_entries s = es1 @ (k, v) # es2"
    "\<forall>(k, v) \<in> set es1. \<forall>err. f v k (s_view_of s) \<noteq> Threw err"
    "f v k (s_view_of s) = Threw err"
proof (cases "\<exists>(k, v) \<in> set (es_entries s). \<exists>err. f v k (s_view_of s) = Threw err")
  case True
  from first_throw [of "es_entries s" "\<lambda>k v. f v k (s_view_of s)", OF True] throw
  show ?thesis by blast
next
  case False
  then show ?thesis using no_throw by blast
qed




lemma es_delete_after_clearTimeout:
  assumes "Map_get (s_priv_map s) key = Some e" "s_timer e = Some h"
  shows "snd (es_delete key (s_clearTimeout (Some h) s)) = snd (es_delete key s)"
  using assms by (simp add: es_delete_eq s_clearTimeout_def filter_fst_idem)

lemma s_fire_eq:
  assumes "map_of (s_timers s) h = Some c" "s_due c \<le> s_clock s"
    "Map_get (s_priv_map s) (s_t_value c) = Some e" "s_timer e = Some h"
  shows "s_fire h s =
     Some ((snd (es_delete (s_t_value c) s))
       \<lparr>s_trace := s_trace s @
          (case s_t_expiryCallback c of
             None \<Rightarrow> []
           | Some cb \<Rightarrow>
               SetExpiryCallbackCalled cb (s_t_value c)
                 (s_view_of (snd (es_delete (s_t_value c) s))) #
               (case awaited (cb (s_t_value c) (s_view_of (snd (es_delete (s_t_value c) s)))) of
                  Rejected err \<Rightarrow>
                    (case s_t_errorCallback c of
                       None \<Rightarrow> []
                     | Some f \<Rightarrow>
                         SetErrorCallbackCalled f err #
                         (case f err of None \<Rightarrow> [] | Some err2 \<Rightarrow> [SetUnhandledRejection err2]))
                | _ \<Rightarrow> []))\<rparr>)"
proof -
  let ?s1 = "snd (es_delete (s_t_value c) s)"
  have tb: "s_timer_body c (s_clearTimeout (Some h) s) =
      (case s_t_expiryCallback c of
         None \<Rightarrow> (Fulfilled (), ?s1)
       | Some cb \<Rightarrow>
           (awaited (cb (s_t_value c) (s_view_of ?s1)),
            ?s1\<lparr>s_trace := s_trace s @
               [SetExpiryCallbackCalled cb (s_t_value c) (s_view_of ?s1)]\<rparr>))"
    by (simp add: s_timer_body_def Let_def es_delete_after_clearTimeout [OF assms(3,4)]
        s_call_expiryCallback_def split: option.splits)
  show ?thesis
    using assms(1,2)
    by (simp add: s_fire_def s_toSync_def tb Let_def
        split: option.splits promise.splits)
qed


subsection \<open>Every state satisfies the invariant\<close>

lemma em_reachable_inv: "em_reachable w \<Longrightarrow> em_inv w"
  by (induction rule: em_reachable.induct)
    (simp_all add: em_inv_new em_inv_set em_inv_delete em_inv_clear em_inv_clearExpiry
      em_inv_setExpiry em_inv_setMinimumExpiry em_inv_expire em_inv_expireAll em_inv_forEach
      em_inv_fire em_inv_advance)

lemma es_reachable_inv: "es_reachable s \<Longrightarrow> es_inv s"
  by (induction rule: es_reachable.induct)
    (simp_all add: es_inv_new es_inv_add es_inv_delete es_inv_clear es_inv_clearExpiry
      es_inv_setExpiry es_inv_setMinimumExpiry es_inv_expire es_inv_expireAll es_inv_forEach
      es_inv_fire es_inv_advance)

subsection \<open>Claims\<close>

text \<open>
  Several statements below are about a state that satisfies the invariant \<open>em_inv\<close>
  (\<open>es_inv\<close> for the set). By \<open>em_reachable_inv\<close> and \<open>es_reachable_inv\<close> these
  are all the states that the constructor and the methods produce, with time passing and
  timers firing in between.
\<close>

text \<open>The definitions unfolded to run the methods on a concrete container.\<close>

lemmas em_eval = em_new_def em_set_def em_delete_def em_getExpiry_def em_setMinimumExpiry_def
  em_setExpiry_def em_has_def Let_def setTimeout_def clearTimeout_def Map_get_def Map_has_def
  Map_delete_def opt_defaultExpiryMs_def opt_defaultExpiryCallback_def opt_expireErrorCallback_def
  em_keys_def Map_keys_def em_get_def em_size_def em_clear_def em_clearExpiry_def em_entries_def
  em_values_def em_iterator_def view_of_def advance_def

lemmas es_eval = es_new_def es_add_def es_delete_def es_getExpiry_def es_setMinimumExpiry_def
  es_setExpiry_def es_has_def Let_def s_setTimeout_def s_clearTimeout_def Map_get_def Map_has_def
  Map_delete_def s_opt_defaultExpiryMs_def s_opt_defaultExpiryCallback_def s_opt_expireErrorCallback_def
  es_values_def Map_keys_def es_size_def es_clear_def es_clearExpiry_def es_entries_def
  es_keys_def es_iterator_def s_view_of_def s_advance_def

text \<open>
  C1. \<^verbatim>\<open>setMinimumExpiry(key, m)\<close> of \<^verbatim>\<open>ExpiringMap\<close> has exactly three outcomes.
  It returns false and changes nothing when \<^verbatim>\<open>getExpiry(key)\<close> is undefined, which is
  the case exactly when the key is absent or its entry has no expiry. It returns true
  and changes nothing when the entry's expiry is at or after now + m. Otherwise it does
  what \<^verbatim>\<open>setExpiry(key, m)\<close> does, returns true, and the entry's expiry is now + m
  afterwards.
  The first conjunct states this for \<^verbatim>\<open>ExpiringMap\<close>, the second for \<^verbatim>\<open>ExpiringSet\<close>, where
  \<^verbatim>\<open>add\<close> takes the place of \<^verbatim>\<open>set\<close>, an element is its own key and there is no value, and
  the callbacks take the element and the set.
\<close>

theorem C1_setMinimumExpiry_three_way:
  "((em_getExpiry key w = None \<longleftrightarrow>
      (\<not> em_has key w \<or> (\<exists>e. Map_get (priv_map w) key = Some e \<and> expiry e = None))) \<and>
   (em_getExpiry key w = None \<longrightarrow> em_setMinimumExpiry key m w = (False, w)) \<and>
   (\<forall>old. em_getExpiry key w = Some old \<and> clock w + m \<le> old \<longrightarrow>
      em_setMinimumExpiry key m w = (True, w)) \<and>
   (\<forall>old. em_getExpiry key w = Some old \<and> old < clock w + m \<longrightarrow>
      em_setMinimumExpiry key m w = (True, snd (em_setExpiry key m w)) \<and>
      em_setMinimumExpiry key m w = em_setExpiry key m w \<and>
      em_getExpiry key (snd (em_setMinimumExpiry key m w)) = Some (clock w + m))) \<and>
   ((es_getExpiry el s = None \<longleftrightarrow>
       (\<not> es_has el s \<or> (\<exists>ent. Map_get (s_priv_map s) el = Some ent \<and> s_expiry ent = None))) \<and>
    (es_getExpiry el s = None \<longrightarrow> es_setMinimumExpiry el dur s = (False, s)) \<and>
    (\<forall>old. es_getExpiry el s = Some old \<and> s_clock s + dur \<le> old \<longrightarrow>
       es_setMinimumExpiry el dur s = (True, s)) \<and>
    (\<forall>old. es_getExpiry el s = Some old \<and> old < s_clock s + dur \<longrightarrow>
       es_setMinimumExpiry el dur s = (True, snd (es_setExpiry el dur s)) \<and>
       es_setMinimumExpiry el dur s = es_setExpiry el dur s \<and>
       es_getExpiry el (snd (es_setMinimumExpiry el dur s)) = Some (s_clock s + dur)))"
  (is "?M \<and> ?S")
proof
  show ?M
  proof -
    have a: "em_getExpiry key w = None \<longleftrightarrow>
        (\<not> em_has key w \<or> (\<exists>e. Map_get (priv_map w) key = Some e \<and> expiry e = None))"
      by (auto simp: em_getExpiry_def em_has_def Map_has_get split: option.splits)
    have b: "em_getExpiry key w = None \<longrightarrow> em_setMinimumExpiry key m w = (False, w)"
      by (simp add: em_setMinimumExpiry_def)
    have c: "\<forall>old. em_getExpiry key w = Some old \<and> clock w + m \<le> old \<longrightarrow>
        em_setMinimumExpiry key m w = (True, w)"
      by (simp add: em_setMinimumExpiry_def Let_def)
    have d: "em_setMinimumExpiry key m w = (True, snd (em_setExpiry key m w)) \<and>
        em_setMinimumExpiry key m w = em_setExpiry key m w \<and>
        em_getExpiry key (snd (em_setMinimumExpiry key m w)) = Some (clock w + m)"
      if h: "em_getExpiry key w = Some old" "old < clock w + m" for old
    proof -
      from h(1) have present: "em_has key w"
        by (auto simp: em_getExpiry_def em_has_def Map_has_get split: option.splits)
      from h have eq: "em_setMinimumExpiry key m w = em_setExpiry key m w"
        by (simp add: em_setMinimumExpiry_def Let_def)
      from present have t: "fst (em_setExpiry key m w) = True"
        by (auto simp: em_has_def Map_has_get em_setExpiry_def split: option.splits)
      from eq t present show ?thesis
        by (simp add: em_setExpiry_getExpiry prod_eq_iff)
    qed
    from a b c d show ?thesis by blast
  qed
next
  show ?S
  proof -
    have a: "es_getExpiry el s = None \<longleftrightarrow>
        (\<not> es_has el s \<or> (\<exists>ent. Map_get (s_priv_map s) el = Some ent \<and> s_expiry ent = None))"
      by (auto simp: es_getExpiry_def es_has_def Map_has_get split: option.splits)
    have b: "es_getExpiry el s = None \<longrightarrow> es_setMinimumExpiry el dur s = (False, s)"
      by (simp add: es_setMinimumExpiry_def)
    have c: "\<forall>old. es_getExpiry el s = Some old \<and> s_clock s + dur \<le> old \<longrightarrow>
        es_setMinimumExpiry el dur s = (True, s)"
      by (simp add: es_setMinimumExpiry_def Let_def)
    have d: "es_setMinimumExpiry el dur s = (True, snd (es_setExpiry el dur s)) \<and>
        es_setMinimumExpiry el dur s = es_setExpiry el dur s \<and>
        es_getExpiry el (snd (es_setMinimumExpiry el dur s)) = Some (s_clock s + dur)"
      if hdl: "es_getExpiry el s = Some old" "old < s_clock s + dur" for old
    proof -
      from hdl(1) have present: "es_has el s"
        by (auto simp: es_getExpiry_def es_has_def Map_has_get split: option.splits)
      from hdl have eq: "es_setMinimumExpiry el dur s = es_setExpiry el dur s"
        by (simp add: es_setMinimumExpiry_def Let_def)
      from present have tt: "fst (es_setExpiry el dur s) = True"
        by (auto simp: es_has_def Map_has_get es_setExpiry_def split: option.splits)
      from eq tt present show ?thesis
        by (simp add: es_setExpiry_getExpiry prod_eq_iff)
    qed
    from a b c d show ?thesis by blast
  qed
qed

theorem C1_setMinimumExpiry_three_way_witness:
  "(em_getExpiry (32::nat) (em_set 32 (7::nat) None None (em_new None 1000)) = None \<and>
   em_setMinimumExpiry 32 50 (em_set 32 (7::nat) None None (em_new None 1000)) =
     (False, em_set 32 7 None None (em_new None 1000)) \<and>
   em_getExpiry (32::nat) (em_set 32 (7::nat) (Some 500) None (em_new None 1000)) = Some 1500 \<and>
   em_setMinimumExpiry 32 100 (em_set (32::nat) (7::nat) (Some 500) None (em_new None 1000)) =
     (True, em_set 32 7 (Some 500) None (em_new None 1000)) \<and>
   fst (em_setMinimumExpiry 32 700
      (em_set (32::nat) (7::nat) (Some 500) None (em_new None 1000))) = True \<and>
   em_getExpiry 32 (snd (em_setMinimumExpiry 32 700
      (em_set (32::nat) (7::nat) (Some 500) None (em_new None 1000)))) = Some 1700) \<and>
   (es_getExpiry (32::nat) (es_add (32::nat) None None (es_new None 1000)) = None \<and>
    es_setMinimumExpiry 32 50 (es_add (32::nat) None None (es_new None 1000)) =
      (False, es_add (32::nat) None None (es_new None 1000)) \<and>
    es_getExpiry (32::nat) (es_add (32::nat) (Some 500) None (es_new None 1000)) = Some 1500 \<and>
    es_setMinimumExpiry 32 100 (es_add (32::nat) (Some 500) None (es_new None 1000)) =
      (True, es_add (32::nat) (Some 500) None (es_new None 1000)) \<and>
    fst (es_setMinimumExpiry 32 700
       (es_add (32::nat) (Some 500) None (es_new None 1000))) = True \<and>
    es_getExpiry 32 (snd (es_setMinimumExpiry 32 700
       (es_add (32::nat) (Some 500) None (es_new None 1000)))) = Some 1700)"
  (is "?M \<and> ?S")
proof
  show ?M
    using
      C1_setMinimumExpiry_three_way
        [THEN conjunct1, of 32 "em_set (32::nat) (7::nat) None None (em_new None 1000)" 50]
      C1_setMinimumExpiry_three_way
        [THEN conjunct1, of 32 "em_set (32::nat) (7::nat) (Some 500) None (em_new None 1000)" 100]
      C1_setMinimumExpiry_three_way
        [THEN conjunct1, of 32 "em_set (32::nat) (7::nat) (Some 500) None (em_new None 1000)" 700]
    by (simp add: em_eval)
next
  show ?S
    using
      C1_setMinimumExpiry_three_way
        [THEN conjunct2, of 32 "es_add (32::nat) None None (es_new None 1000)" 50]
      C1_setMinimumExpiry_three_way
        [THEN conjunct2, of 32 "es_add (32::nat) (Some 500) None (es_new None 1000)" 100]
      C1_setMinimumExpiry_three_way
        [THEN conjunct2, of 32 "es_add (32::nat) (Some 500) None (es_new None 1000)" 700]
    by (simp add: es_eval)
qed

text \<open>
  C3. \<^verbatim>\<open>expire(key)\<close> of \<^verbatim>\<open>ExpiringMap\<close>. For a key that is present it removes the
  entry as \<^verbatim>\<open>delete\<close> does and then, if the entry has a callback, calls it with the
  key, the value and the container, which no longer shows the key; the promise of
  \<^verbatim>\<open>expire\<close> follows the callback: it is fulfilled with true when the callback returns
  or its promise is fulfilled, rejected with the callback's error when it throws or its
  promise is rejected, and pending as long as the callback's promise is. Without a
  callback it is fulfilled with true. For an absent key it is fulfilled with false and
  nothing changes; so a second \<^verbatim>\<open>expire\<close> of the same key is fulfilled with false and
  changes nothing.
  The first conjunct states this for \<^verbatim>\<open>ExpiringMap\<close>, the second for \<^verbatim>\<open>ExpiringSet\<close>, where
  \<^verbatim>\<open>add\<close> takes the place of \<^verbatim>\<open>set\<close>, an element is its own key and there is no value, and
  the callbacks take the element and the set.
\<close>

theorem C3_expire:
  "((\<forall>e. Map_get (priv_map w) key = Some e \<longrightarrow>
      fst (em_expire key w) =
        (case expiryCallback e of
           None \<Rightarrow> Fulfilled True
         | Some cb \<Rightarrow>
             (case cb key (entry_value e) (view_of (snd (em_delete key w))) of
                Returned \<Rightarrow> Fulfilled True
              | Threw err \<Rightarrow> Rejected err
              | Resolved \<Rightarrow> Fulfilled True
              | RejectedWith err \<Rightarrow> Rejected err
              | NeverSettled \<Rightarrow> Pending)) \<and>
      snd (em_expire key w) =
        (snd (em_delete key w))
          \<lparr>trace := trace w @
             (case expiryCallback e of
                None \<Rightarrow> []
              | Some cb \<Rightarrow>
                  [ExpiryCallbackCalled cb key (entry_value e)
                     (view_of (snd (em_delete key w)))])\<rparr> \<and>
      key \<notin> fst ` set (view_of (snd (em_delete key w))) \<and>
      \<not> em_has key (snd (em_expire key w))) \<and>
   (\<not> em_has key w \<longrightarrow> em_expire key w = (Fulfilled False, w)) \<and>
   em_expire key (snd (em_expire key w)) = (Fulfilled False, snd (em_expire key w))) \<and>
   ((\<forall>ent. Map_get (s_priv_map s) el = Some ent \<longrightarrow>
       fst (es_expire el s) =
         (case s_expiryCallback ent of
            None \<Rightarrow> Fulfilled True
          | Some cb \<Rightarrow>
              (case cb el (s_view_of (snd (es_delete el s))) of
                 Returned \<Rightarrow> Fulfilled True
               | Threw err \<Rightarrow> Rejected err
               | Resolved \<Rightarrow> Fulfilled True
               | RejectedWith err \<Rightarrow> Rejected err
               | NeverSettled \<Rightarrow> Pending)) \<and>
       snd (es_expire el s) =
         (snd (es_delete el s))
           \<lparr>s_trace := s_trace s @
              (case s_expiryCallback ent of
                 None \<Rightarrow> []
               | Some cb \<Rightarrow>
                   [SetExpiryCallbackCalled cb el
                      (s_view_of (snd (es_delete el s)))])\<rparr> \<and>
       el \<notin> fst ` set (s_view_of (snd (es_delete el s))) \<and>
       \<not> es_has el (snd (es_expire el s))) \<and>
    (\<not> es_has el s \<longrightarrow> es_expire el s = (Fulfilled False, s)) \<and>
    es_expire el (snd (es_expire el s)) = (Fulfilled False, snd (es_expire el s)))"
  (is "?M \<and> ?S")
proof
  show ?M
  proof -
    have "key \<notin> fst ` set (view_of (snd (em_delete key w)))"
      using Map_has_delete [of "priv_map w" key key] by (simp add: view_of_keys Map_has_def)
    then show ?thesis
      using em_expire_removes [of key w]
      by (auto simp: em_expire_present em_expire_absent)
  qed
next
  show ?S
  proof -
    have "el \<notin> fst ` set (s_view_of (snd (es_delete el s)))"
      using Map_has_delete [of "s_priv_map s" el el] by (simp add: s_view_of_keys Map_has_def)
    then show ?thesis
      using es_expire_removes [of el s]
      by (auto simp: es_expire_present es_expire_absent)
  qed
qed

theorem C3_expire_witness:
  "(Map_get (priv_map (em_set (4::nat) (7::nat) (Some 7000) (Some cb_throws) (em_new None 0))) 4
     \<noteq> None \<and>
   fst (em_expire 4 (em_set (4::nat) (7::nat) (Some 7000) (Some cb_throws) (em_new None 0))) =
     Rejected (JsError 1) \<and>
   trace (snd (em_expire 4
      (em_set (4::nat) (7::nat) (Some 7000) (Some cb_throws) (em_new None 0)))) =
     [ExpiryCallbackCalled cb_throws 4 7 []] \<and>
   fst (em_expire 4 (em_set (4::nat) (7::nat) (Some 7000) (Some cb_resolves) (em_new None 0))) =
     Fulfilled True \<and>
   \<not> em_has 678 (em_set (4::nat) (7::nat) (Some 7000) (Some cb_throws) (em_new None 0)) \<and>
   em_expire 678 (em_set (4::nat) (7::nat) (Some 7000) (Some cb_throws) (em_new None 0)) =
     (Fulfilled False, em_set 4 7 (Some 7000) (Some cb_throws) (em_new None 0))) \<and>
   (Map_get (s_priv_map (es_add (4::nat) (Some 7000) (Some scb_throws) (es_new None 0))) 4
      \<noteq> None \<and>
    fst (es_expire 4 (es_add (4::nat) (Some 7000) (Some scb_throws) (es_new None 0))) =
      Rejected (JsError 1) \<and>
    s_trace (snd (es_expire 4
       (es_add (4::nat) (Some 7000) (Some scb_throws) (es_new None 0)))) =
      [SetExpiryCallbackCalled scb_throws 4 []] \<and>
    fst (es_expire 4 (es_add (4::nat) (Some 7000) (Some scb_resolves) (es_new None 0))) =
      Fulfilled True \<and>
    \<not> es_has 678 (es_add (4::nat) (Some 7000) (Some scb_throws) (es_new None 0)) \<and>
    es_expire 678 (es_add (4::nat) (Some 7000) (Some scb_throws) (es_new None 0)) =
      (Fulfilled False, es_add (4::nat) (Some 7000) (Some scb_throws) (es_new None 0)))"
  (is "?M \<and> ?S")
proof
  show ?M
    using
      C3_expire [THEN conjunct1, of "em_set (4::nat) (7::nat) (Some 7000) (Some cb_throws) (em_new None 0)" 4]
      C3_expire [THEN conjunct1, of "em_set (4::nat) (7::nat) (Some 7000) (Some cb_resolves) (em_new None 0)" 4]
      C3_expire [THEN conjunct1, of "em_set (4::nat) (7::nat) (Some 7000) (Some cb_throws) (em_new None 0)" 678]
    by (simp add: em_eval view_of_def cb_throws_def cb_resolves_def)
next
  show ?S
    using
      C3_expire [THEN conjunct2, of "es_add (4::nat) (Some 7000) (Some scb_throws) (es_new None 0)" 4]
      C3_expire [THEN conjunct2, of "es_add (4::nat) (Some 7000) (Some scb_resolves) (es_new None 0)" 4]
      C3_expire [THEN conjunct2, of "es_add (4::nat) (Some 7000) (Some scb_throws) (es_new None 0)" 678]
    by (simp add: es_eval s_view_of_def cb_throws_def scb_throws_def cb_resolves_def scb_resolves_def)
qed

text \<open>
  C6. \<^verbatim>\<open>delete(key)\<close> of \<^verbatim>\<open>ExpiringMap\<close> returns true exactly when the key was
  present, removes the entry and leaves the other entries as they are, and calls no user
  function (the trace is unchanged). The timer of the removed entry is no longer pending,
  so the runtime cannot run it; in a state that satisfies the invariant no pending timer
  is left for the key at all. \<^verbatim>\<open>clear()\<close> is \<^verbatim>\<open>delete\<close> applied to every key in
  turn; afterwards the container is empty (size 0), no user function has been called,
  and, in a state that satisfies the invariant, no timer is pending.
  The first conjunct states this for \<^verbatim>\<open>ExpiringMap\<close>, the second for \<^verbatim>\<open>ExpiringSet\<close>, where
  \<^verbatim>\<open>add\<close> takes the place of \<^verbatim>\<open>set\<close>, an element is its own key and there is no value, and
  the callbacks take the element and the set.
\<close>

theorem C6_delete_clear:
  "(fst (em_delete key w) = em_has key w \<and>
   \<not> em_has key (snd (em_delete key w)) \<and>
   priv_map (snd (em_delete key w)) = Map_delete (priv_map w) key \<and>
   (\<forall>k. k \<noteq> key \<longrightarrow>
      Map_get (priv_map (snd (em_delete key w))) k = Map_get (priv_map w) k) \<and>
   trace (snd (em_delete key w)) = trace w \<and>
   (\<forall>e h. Map_get (priv_map w) key = Some e \<and> timer e = Some h \<longrightarrow>
      h \<notin> fst ` set (timers (snd (em_delete key w))) \<and>
      fire h (snd (em_delete key w)) = None) \<and>
   (em_inv w \<longrightarrow> (\<forall>(h, c) \<in> set (timers (snd (em_delete key w))). t_key c \<noteq> key)) \<and>
   em_clear w = fold (\<lambda>k w. snd (em_delete k w)) (em_keys w) w \<and>
   priv_map (em_clear w) = [] \<and>
   em_size (em_clear w) = 0 \<and>
   trace (em_clear w) = trace w \<and>
   (em_inv w \<longrightarrow> timers (em_clear w) = [])) \<and>
   (fst (es_delete el s) = es_has el s \<and>
    \<not> es_has el (snd (es_delete el s)) \<and>
    s_priv_map (snd (es_delete el s)) = Map_delete (s_priv_map s) el \<and>
    (\<forall>k. k \<noteq> el \<longrightarrow>
       Map_get (s_priv_map (snd (es_delete el s))) k = Map_get (s_priv_map s) k) \<and>
    s_trace (snd (es_delete el s)) = s_trace s \<and>
    (\<forall>ent hdl. Map_get (s_priv_map s) el = Some ent \<and> s_timer ent = Some hdl \<longrightarrow>
       hdl \<notin> fst ` set (s_timers (snd (es_delete el s))) \<and>
       s_fire hdl (snd (es_delete el s)) = None) \<and>
    (es_inv s \<longrightarrow> (\<forall>(hdl, c) \<in> set (s_timers (snd (es_delete el s))). s_t_value c \<noteq> el)) \<and>
    es_clear s = fold (\<lambda>k s. snd (es_delete k s)) (es_values s) s \<and>
    s_priv_map (es_clear s) = [] \<and>
    es_size (es_clear s) = 0 \<and>
    s_trace (es_clear s) = s_trace s \<and>
    (es_inv s \<longrightarrow> s_timers (es_clear s) = []))"
  (is "?M \<and> ?S")
proof
  show ?M
  proof -
    have loop: "em_clear_loop ks w = fold (\<lambda>k w. snd (em_delete k w)) ks w" for ks
      by (induction ks arbitrary: w) simp_all
    have t: "em_inv w \<longrightarrow> timers (em_clear w) = []"
      using timers_owned_empty [of "em_clear w"] em_inv_clear [of w]
      by (simp add: em_inv_def em_clear_map)
    have c: "\<forall>e h. Map_get (priv_map w) key = Some e \<and> timer e = Some h \<longrightarrow>
        h \<notin> fst ` set (timers (snd (em_delete key w))) \<and>
        fire h (snd (em_delete key w)) = None"
      using em_delete_cancels [of w key] fire_not_pending by blast
    have k: "em_inv w \<longrightarrow> (\<forall>(h, c) \<in> set (timers (snd (em_delete key w))). t_key c \<noteq> key)"
      using em_delete_no_timer_for_key [of w _ _ key] by blast
    have f: "em_clear w = fold (\<lambda>k w. snd (em_delete k w)) (em_keys w) w"
      by (simp add: em_clear_def loop)
    have tr: "trace (em_clear w) = trace w"
      by (simp add: em_clear_def em_clear_loop_trace)
    have d: "fst (em_delete key w) = em_has key w \<and>
     \<not> em_has key (snd (em_delete key w)) \<and>
     priv_map (snd (em_delete key w)) = Map_delete (priv_map w) key \<and>
     (\<forall>k. k \<noteq> key \<longrightarrow>
        Map_get (priv_map (snd (em_delete key w))) k = Map_get (priv_map w) k) \<and>
     trace (snd (em_delete key w)) = trace w"
      by (simp add: em_has_def Map_has_delete Map_get_delete)
    have s: "priv_map (em_clear w) = [] \<and> em_size (em_clear w) = 0"
      by (simp add: em_clear_map em_size_def)
    from d c k f s tr t show ?thesis by blast
  qed
next
  show ?S
  proof -
    have loop: "es_clear_loop ks s = fold (\<lambda>k s. snd (es_delete k s)) ks s" for ks
      by (induction ks arbitrary: s) simp_all
    have tt: "es_inv s \<longrightarrow> s_timers (es_clear s) = []"
      using s_timers_owned_empty [of "es_clear s"] es_inv_clear [of s]
      by (simp add: es_inv_def es_clear_map)
    have c: "\<forall>ent hdl. Map_get (s_priv_map s) el = Some ent \<and> s_timer ent = Some hdl \<longrightarrow>
        hdl \<notin> fst ` set (s_timers (snd (es_delete el s))) \<and>
        s_fire hdl (snd (es_delete el s)) = None"
      using es_delete_cancels [of s el] s_fire_not_pending by blast
    have k: "es_inv s \<longrightarrow> (\<forall>(hdl, c) \<in> set (s_timers (snd (es_delete el s))). s_t_value c \<noteq> el)"
      using es_delete_no_timer_for_key [of s _ _ el] by blast
    have g: "es_clear s = fold (\<lambda>k s. snd (es_delete k s)) (es_values s) s"
      by (simp add: es_clear_def es_values_def loop)
    have tr: "s_trace (es_clear s) = s_trace s"
      by (simp add: es_clear_def es_clear_loop_trace)
    have d: "fst (es_delete el s) = es_has el s \<and>
     \<not> es_has el (snd (es_delete el s)) \<and>
     s_priv_map (snd (es_delete el s)) = Map_delete (s_priv_map s) el \<and>
     (\<forall>k. k \<noteq> el \<longrightarrow>
        Map_get (s_priv_map (snd (es_delete el s))) k = Map_get (s_priv_map s) k) \<and>
     s_trace (snd (es_delete el s)) = s_trace s"
      by (simp add: es_has_def Map_has_delete Map_get_delete)
    have s: "s_priv_map (es_clear s) = [] \<and> es_size (es_clear s) = 0"
      by (simp add: es_clear_map es_size_def)
    from d c k g s tr tt show ?thesis by blast
  qed
qed

theorem C6_delete_clear_witness:
  "(em_inv (em_set 99 (0::nat) None None
     (em_set (32::nat) 7 (Some 50) (Some cb_returns) (em_new None 0))) \<and>
   em_has 32 (em_set 99 (0::nat) None None
     (em_set (32::nat) 7 (Some 50) (Some cb_returns) (em_new None 0))) \<and>
   fst (em_delete 32 (em_set 99 (0::nat) None None
     (em_set (32::nat) 7 (Some 50) (Some cb_returns) (em_new None 0)))) = True \<and>
   em_get 99 (snd (em_delete 32 (em_set 99 (0::nat) None None
     (em_set (32::nat) 7 (Some 50) (Some cb_returns) (em_new None 0))))) = Some 0 \<and>
   fire 0 (snd (em_delete 32 (em_set 99 (0::nat) None None
     (em_set (32::nat) 7 (Some 50) (Some cb_returns) (em_new None 0))))) = None \<and>
   timers (snd (em_delete 32 (em_set 99 (0::nat) None None
     (em_set (32::nat) 7 (Some 50) (Some cb_returns) (em_new None 0))))) = [] \<and>
   em_size (em_clear (em_set 99 (0::nat) None None
     (em_set (32::nat) 7 (Some 50) (Some cb_returns) (em_new None 0)))) = 0 \<and>
   timers (em_clear (em_set 99 (0::nat) None None
     (em_set (32::nat) 7 (Some 50) (Some cb_returns) (em_new None 0)))) = [] \<and>
   trace (em_clear (em_set 99 (0::nat) None None
     (em_set (32::nat) 7 (Some 50) (Some cb_returns) (em_new None 0)))) = []) \<and>
   (es_inv (es_add (99::nat) None None
      (es_add (32::nat) (Some 50) (Some scb_returns) (es_new None 0))) \<and>
    es_has 32 (es_add (99::nat) None None
      (es_add (32::nat) (Some 50) (Some scb_returns) (es_new None 0))) \<and>
    fst (es_delete 32 (es_add (99::nat) None None
      (es_add (32::nat) (Some 50) (Some scb_returns) (es_new None 0)))) = True \<and>
    s_fire 0 (snd (es_delete 32 (es_add (99::nat) None None
      (es_add (32::nat) (Some 50) (Some scb_returns) (es_new None 0))))) = None \<and>
    s_timers (snd (es_delete 32 (es_add (99::nat) None None
      (es_add (32::nat) (Some 50) (Some scb_returns) (es_new None 0))))) = [] \<and>
    es_size (es_clear (es_add (99::nat) None None
      (es_add (32::nat) (Some 50) (Some scb_returns) (es_new None 0)))) = 0 \<and>
    s_timers (es_clear (es_add (99::nat) None None
      (es_add (32::nat) (Some 50) (Some scb_returns) (es_new None 0)))) = [] \<and>
    s_trace (es_clear (es_add (99::nat) None None
      (es_add (32::nat) (Some 50) (Some scb_returns) (es_new None 0)))) = [])"
  (is "?M \<and> ?S")
proof
  show ?M
  proof -
    have inv: "em_inv (em_set 99 (0::nat) None None
       (em_set (32::nat) 7 (Some 50) (Some cb_returns) (em_new None 0)))"
      by (intro em_inv_set em_inv_new)
    show ?thesis
      using inv
        C6_delete_clear [THEN conjunct1, of 32 "em_set 99 (0::nat) None None
          (em_set (32::nat) 7 (Some 50) (Some cb_returns) (em_new None 0))"]
      by (simp add: em_eval)
  qed
next
  show ?S
  proof -
    have inv: "es_inv (es_add (99::nat) None None
       (es_add (32::nat) (Some 50) (Some scb_returns) (es_new None 0)))"
      by (intro es_inv_add es_inv_new)
    show ?thesis
      using inv
        C6_delete_clear [THEN conjunct2, of 32 "es_add (99::nat) None None
          (es_add (32::nat) (Some 50) (Some scb_returns) (es_new None 0))"]
      by (simp add: es_eval)
  qed
qed

text \<open>
  C8. \<^verbatim>\<open>setExpiry(key, msFromNow)\<close> of \<^verbatim>\<open>ExpiringMap\<close> on a present key is
  \<^verbatim>\<open>set\<close> of the key with the stored value, the duration \<^verbatim>\<open>msFromNow\<close> and the stored
  callback, and returns true; afterwards the key has the same value, the expiry
  now + \<^verbatim>\<open>msFromNow\<close> and, in a state produced by the constructor and the methods
  (where an entry without callback exists only if there is no default callback), the
  same callback. On an absent key it returns false and changes nothing.
  The first conjunct states this for \<^verbatim>\<open>ExpiringMap\<close>, the second for \<^verbatim>\<open>ExpiringSet\<close>, where
  \<^verbatim>\<open>add\<close> takes the place of \<^verbatim>\<open>set\<close>, an element is its own key and there is no value, and
  the callbacks take the element and the set.
\<close>

theorem C8_setExpiry:
  "((\<forall>e. Map_get (priv_map w) key = Some e \<longrightarrow>
      em_setExpiry key ms w =
        (True, em_set key (entry_value e) (Some ms) (expiryCallback e) w) \<and>
      em_get key (snd (em_setExpiry key ms w)) = Some (entry_value e) \<and>
      em_getExpiry key (snd (em_setExpiry key ms w)) = Some (clock w + ms) \<and>
      (defaults_applied w \<longrightarrow>
         map_option expiryCallback (Map_get (priv_map (snd (em_setExpiry key ms w))) key) =
           Some (expiryCallback e))) \<and>
   (\<not> em_has key w \<longrightarrow> em_setExpiry key ms w = (False, w))) \<and>
   ((\<forall>ent. Map_get (s_priv_map s) el = Some ent \<longrightarrow>
       es_setExpiry el dur s =
         (True, es_add el (Some dur) (s_expiryCallback ent) s) \<and>
       es_getExpiry el (snd (es_setExpiry el dur s)) = Some (s_clock s + dur) \<and>
       (s_defaults_applied s \<longrightarrow>
          map_option s_expiryCallback (Map_get (s_priv_map (snd (es_setExpiry el dur s))) el) =
            Some (s_expiryCallback ent))) \<and>
    (\<not> es_has el s \<longrightarrow> es_setExpiry el dur s = (False, s)))"
  (is "?M \<and> ?S")
proof
  show ?M
  proof -
    have "opt_defaultExpiryCallback w = None"
      if "Map_get (priv_map w) key = Some e" "defaults_applied w" "expiryCallback e = None" for e
      using that Map_get_SomeD [of "priv_map w" key e] by (auto simp: defaults_applied_def)
    then show ?thesis
      by (auto simp: em_setExpiry_def em_has_def Map_has_get em_get_def em_getExpiry_def
          em_set_map Map_get_delete_append split: option.splits)
  qed
next
  show ?S
  proof -
    have "s_opt_defaultExpiryCallback s = None"
      if "Map_get (s_priv_map s) el = Some ent" "s_defaults_applied s" "s_expiryCallback ent = None" for ent
      using that Map_get_SomeD [of "s_priv_map s" el ent] by (auto simp: s_defaults_applied_def)
    then show ?thesis
      by (auto simp: es_setExpiry_def es_has_def Map_has_get es_getExpiry_def
          es_add_map Map_get_delete_append split: option.splits)
  qed
qed

theorem C8_setExpiry_witness:
  "(Map_get (priv_map (em_set (10::nat) (7::nat) None (Some cb_returns) (em_new None 1000))) 10
     \<noteq> None \<and>
   defaults_applied (em_set (10::nat) (7::nat) None (Some cb_returns) (em_new None 1000)) \<and>
   fst (em_setExpiry 10 300
      (em_set (10::nat) (7::nat) None (Some cb_returns) (em_new None 1000))) = True \<and>
   em_get 10 (snd (em_setExpiry 10 300
      (em_set (10::nat) (7::nat) None (Some cb_returns) (em_new None 1000)))) = Some 7 \<and>
   em_getExpiry 10 (snd (em_setExpiry 10 300
      (em_set (10::nat) (7::nat) None (Some cb_returns) (em_new None 1000)))) = Some 1300 \<and>
   map_option expiryCallback (Map_get (priv_map (snd (em_setExpiry 10 300
      (em_set (10::nat) (7::nat) None (Some cb_returns) (em_new None 1000))))) 10) =
     Some (Some cb_returns) \<and>
   \<not> em_has 10 (em_new None 1000 :: (nat, nat) ExpiringMap) \<and>
   em_setExpiry 10 300 (em_new None 1000 :: (nat, nat) ExpiringMap) = (False, em_new None 1000)) \<and>
   (Map_get (s_priv_map (es_add (10::nat) None (Some scb_returns) (es_new None 1000))) 10
      \<noteq> None \<and>
    s_defaults_applied (es_add (10::nat) None (Some scb_returns) (es_new None 1000)) \<and>
    fst (es_setExpiry 10 300
       (es_add (10::nat) None (Some scb_returns) (es_new None 1000))) = True \<and>
    es_getExpiry 10 (snd (es_setExpiry 10 300
       (es_add (10::nat) None (Some scb_returns) (es_new None 1000)))) = Some 1300 \<and>
    map_option s_expiryCallback (Map_get (s_priv_map (snd (es_setExpiry 10 300
       (es_add (10::nat) None (Some scb_returns) (es_new None 1000))))) 10) =
      Some (Some scb_returns) \<and>
    \<not> es_has 10 (es_new None 1000 :: nat ExpiringSet) \<and>
    es_setExpiry 10 300 (es_new None 1000 :: nat ExpiringSet) = (False, es_new None 1000))"
  (is "?M \<and> ?S")
proof
  show ?M
  proof -
    have inv: "defaults_applied
        (em_set (10::nat) (7::nat) None (Some cb_returns) (em_new None 1000))"
      using em_inv_set [OF em_inv_new, of "10::nat" "7::nat" None "Some cb_returns" None 1000]
      by (simp add: em_inv_def)
    show ?thesis
      using inv
        C8_setExpiry [THEN conjunct1, of "em_set (10::nat) (7::nat) None (Some cb_returns) (em_new None 1000)"
          10 300]
        C8_setExpiry [THEN conjunct1, of "em_new None 1000 :: (nat, nat) ExpiringMap" 10 300]
      by (simp add: em_eval)
  qed
next
  show ?S
  proof -
    have inv: "s_defaults_applied
        (es_add (10::nat) None (Some scb_returns) (es_new None 1000))"
      using es_inv_add [OF es_inv_new, of "10::nat" None "Some scb_returns" None 1000]
      by (simp add: es_inv_def)
    show ?thesis
      using inv
        C8_setExpiry [THEN conjunct2, of "es_add (10::nat) None (Some scb_returns) (es_new None 1000)"
          10 300]
        C8_setExpiry [THEN conjunct2, of "es_new None 1000 :: nat ExpiringSet" 10 300]
      by (simp add: es_eval)
  qed
qed

text \<open>
  C9. \<^verbatim>\<open>clearExpiry(key)\<close> of \<^verbatim>\<open>ExpiringMap\<close> returns true for every present key,
  with or without expiry. The keys and their order, the values, the entry's callback and
  all other entries stay as they are, no user function is called, the entry's expiry
  and timer are unset and its former timer is no longer pending. For an entry without
  expiry, in a state that satisfies the invariant, the state does not change at all.
  For an absent key it returns false and changes nothing.
  The first conjunct states this for \<^verbatim>\<open>ExpiringMap\<close>, the second for \<^verbatim>\<open>ExpiringSet\<close>, where
  \<^verbatim>\<open>add\<close> takes the place of \<^verbatim>\<open>set\<close>, an element is its own key and there is no value, and
  the callbacks take the element and the set.
\<close>

theorem C9_clearExpiry:
  "((\<forall>e. Map_get (priv_map w) key = Some e \<longrightarrow>
      fst (em_clearExpiry key w) = True \<and>
      em_keys (snd (em_clearExpiry key w)) = em_keys w \<and>
      em_entries (snd (em_clearExpiry key w)) = em_entries w \<and>
      Map_get (priv_map (snd (em_clearExpiry key w))) key =
        Some (e\<lparr>expiry := None, timer := None\<rparr>) \<and>
      (\<forall>k. k \<noteq> key \<longrightarrow>
         Map_get (priv_map (snd (em_clearExpiry key w))) k = Map_get (priv_map w) k) \<and>
      em_getExpiry key (snd (em_clearExpiry key w)) = None \<and>
      trace (snd (em_clearExpiry key w)) = trace w \<and>
      (\<forall>h. timer e = Some h \<longrightarrow> h \<notin> fst ` set (timers (snd (em_clearExpiry key w)))) \<and>
      (em_inv w \<and> expiry e = None \<longrightarrow> snd (em_clearExpiry key w) = w)) \<and>
   (\<not> em_has key w \<longrightarrow> em_clearExpiry key w = (False, w))) \<and>
   ((\<forall>ent. Map_get (s_priv_map s) el = Some ent \<longrightarrow>
       fst (es_clearExpiry el s) = True \<and>
       es_values (snd (es_clearExpiry el s)) = es_values s \<and>
       es_entries (snd (es_clearExpiry el s)) = es_entries s \<and>
       Map_get (s_priv_map (snd (es_clearExpiry el s))) el =
         Some (ent\<lparr>s_expiry := None, s_timer := None\<rparr>) \<and>
       (\<forall>k. k \<noteq> el \<longrightarrow>
          Map_get (s_priv_map (snd (es_clearExpiry el s))) k = Map_get (s_priv_map s) k) \<and>
       es_getExpiry el (snd (es_clearExpiry el s)) = None \<and>
       s_trace (snd (es_clearExpiry el s)) = s_trace s \<and>
       (\<forall>hdl. s_timer ent = Some hdl \<longrightarrow> hdl \<notin> fst ` set (s_timers (snd (es_clearExpiry el s)))) \<and>
       (es_inv s \<and> s_expiry ent = None \<longrightarrow> snd (es_clearExpiry el s) = s)) \<and>
    (\<not> es_has el s \<longrightarrow> es_clearExpiry el s = (False, s)))"
  (is "?M \<and> ?S")
proof
  show ?M
  proof -
    have noop: "snd (em_clearExpiry key w) = w"
      if e: "Map_get (priv_map w) key = Some e" and inv: "em_inv w" and ex: "expiry e = None" for e
    proof -
      from inv have "entries_armed w" by (simp add: em_inv_def)
      from entries_armed_untimed [OF this Map_get_SomeD [OF e]] ex have t: "timer e = None"
        by simp
      with ex have "e\<lparr>expiry := None, timer := None\<rparr> = e" by simp
      with e t show ?thesis
        by (simp add: em_clearExpiry_def Let_def clearTimeout_def Map_set_same)
    qed
    have present: "fst (em_clearExpiry key w) = True \<and>
        em_keys (snd (em_clearExpiry key w)) = em_keys w \<and>
        em_entries (snd (em_clearExpiry key w)) = em_entries w \<and>
        Map_get (priv_map (snd (em_clearExpiry key w))) key =
          Some (e\<lparr>expiry := None, timer := None\<rparr>) \<and>
        (\<forall>k. k \<noteq> key \<longrightarrow>
           Map_get (priv_map (snd (em_clearExpiry key w))) k = Map_get (priv_map w) k) \<and>
        em_getExpiry key (snd (em_clearExpiry key w)) = None \<and>
        trace (snd (em_clearExpiry key w)) = trace w \<and>
        (\<forall>h. timer e = Some h \<longrightarrow> h \<notin> fst ` set (timers (snd (em_clearExpiry key w))))"
      if e: "Map_get (priv_map w) key = Some e" for e
      using em_delete_cancels [OF e]
      by (simp add: em_clearExpiry_state [OF e] em_keys_def Map_keys_Map_set_get [OF e]
          em_entries_def em_entries_Map_set [OF e] Map_get_set em_getExpiry_def)
    show ?thesis
      using noop present
      by (auto simp: em_has_def Map_has_get em_clearExpiry_absent)
  qed
next
  show ?S
  proof -
    have noop: "snd (es_clearExpiry el s) = s"
      if ent: "Map_get (s_priv_map s) el = Some ent" and inv: "es_inv s" and ex: "s_expiry ent = None" for ent
    proof -
      from inv have "s_entries_armed s" by (simp add: es_inv_def)
      from s_entries_armed_untimed [OF this Map_get_SomeD [OF ent]] ex have tt: "s_timer ent = None"
        by simp
      with ex have "ent\<lparr>s_expiry := None, s_timer := None\<rparr> = ent" by simp
      with ent tt show ?thesis
        by (simp add: es_clearExpiry_def Let_def s_clearTimeout_def Map_set_same)
    qed
    have present: "fst (es_clearExpiry el s) = True \<and>
        es_values (snd (es_clearExpiry el s)) = es_values s \<and>
        es_entries (snd (es_clearExpiry el s)) = es_entries s \<and>
        Map_get (s_priv_map (snd (es_clearExpiry el s))) el =
          Some (ent\<lparr>s_expiry := None, s_timer := None\<rparr>) \<and>
        (\<forall>k. k \<noteq> el \<longrightarrow>
           Map_get (s_priv_map (snd (es_clearExpiry el s))) k = Map_get (s_priv_map s) k) \<and>
        es_getExpiry el (snd (es_clearExpiry el s)) = None \<and>
        s_trace (snd (es_clearExpiry el s)) = s_trace s \<and>
        (\<forall>hdl. s_timer ent = Some hdl \<longrightarrow> hdl \<notin> fst ` set (s_timers (snd (es_clearExpiry el s))))"
      if ent: "Map_get (s_priv_map s) el = Some ent" for ent
      using es_delete_cancels [OF ent]
      by (simp add: es_clearExpiry_state [OF ent] es_values_def Map_keys_Map_set_get [OF ent]
          es_entries_def Map_get_set es_getExpiry_def)
    show ?thesis
      using noop present
      by (auto simp: es_has_def Map_has_get es_clearExpiry_absent)
  qed
qed

theorem C9_clearExpiry_witness:
  "(em_getExpiry 7 (em_set (7::nat) (1::nat) None None
      (em_new (Some \<lparr>defaultExpiryMs = Some 2000, defaultExpiryCallback = None,
                     expireErrorCallback = None\<rparr>) 0)) = Some 2000 \<and>
   fst (em_clearExpiry 7 (em_set (7::nat) (1::nat) None None
      (em_new (Some \<lparr>defaultExpiryMs = Some 2000, defaultExpiryCallback = None,
                     expireErrorCallback = None\<rparr>) 0))) = True \<and>
   em_getExpiry 7 (snd (em_clearExpiry 7 (em_set (7::nat) (1::nat) None None
      (em_new (Some \<lparr>defaultExpiryMs = Some 2000, defaultExpiryCallback = None,
                     expireErrorCallback = None\<rparr>) 0)))) = None \<and>
   timers (snd (em_clearExpiry 7 (em_set (7::nat) (1::nat) None None
      (em_new (Some \<lparr>defaultExpiryMs = Some 2000, defaultExpiryCallback = None,
                     expireErrorCallback = None\<rparr>) 0)))) = [] \<and>
   em_entries (snd (em_clearExpiry 7 (em_set (7::nat) (1::nat) None None
      (em_new (Some \<lparr>defaultExpiryMs = Some 2000, defaultExpiryCallback = None,
                     expireErrorCallback = None\<rparr>) 0)))) = [(7, 1)] \<and>
   em_inv (em_set (7::nat) (1::nat) None None (em_new None 0)) \<and>
   em_getExpiry 7 (em_set (7::nat) (1::nat) None None (em_new None 0)) = None \<and>
   em_clearExpiry 7 (em_set (7::nat) (1::nat) None None (em_new None 0)) =
     (True, em_set 7 1 None None (em_new None 0)) \<and>
   \<not> em_has 79 (em_set (7::nat) (1::nat) None None (em_new None 0)) \<and>
   em_clearExpiry 79 (em_set (7::nat) (1::nat) None None (em_new None 0)) =
     (False, em_set 7 1 None None (em_new None 0))) \<and>
   (es_getExpiry 7 (es_add (7::nat) None None
       (es_new (Some \<lparr>s_defaultExpiryMs = Some 2000, s_defaultExpiryCallback = None,
                      s_expireErrorCallback = None\<rparr>) 0)) = Some 2000 \<and>
    fst (es_clearExpiry 7 (es_add (7::nat) None None
       (es_new (Some \<lparr>s_defaultExpiryMs = Some 2000, s_defaultExpiryCallback = None,
                      s_expireErrorCallback = None\<rparr>) 0))) = True \<and>
    es_getExpiry 7 (snd (es_clearExpiry 7 (es_add (7::nat) None None
       (es_new (Some \<lparr>s_defaultExpiryMs = Some 2000, s_defaultExpiryCallback = None,
                      s_expireErrorCallback = None\<rparr>) 0)))) = None \<and>
    s_timers (snd (es_clearExpiry 7 (es_add (7::nat) None None
       (es_new (Some \<lparr>s_defaultExpiryMs = Some 2000, s_defaultExpiryCallback = None,
                      s_expireErrorCallback = None\<rparr>) 0)))) = [] \<and>
    es_entries (snd (es_clearExpiry 7 (es_add (7::nat) None None
       (es_new (Some \<lparr>s_defaultExpiryMs = Some 2000, s_defaultExpiryCallback = None,
                      s_expireErrorCallback = None\<rparr>) 0)))) = [(7, 7)] \<and>
    es_inv (es_add (7::nat) None None (es_new None 0)) \<and>
    es_getExpiry 7 (es_add (7::nat) None None (es_new None 0)) = None \<and>
    es_clearExpiry 7 (es_add (7::nat) None None (es_new None 0)) =
      (True, es_add (7::nat) None None (es_new None 0)) \<and>
    \<not> es_has 79 (es_add (7::nat) None None (es_new None 0)) \<and>
    es_clearExpiry 79 (es_add (7::nat) None None (es_new None 0)) =
      (False, es_add (7::nat) None None (es_new None 0)))"
  (is "?M \<and> ?S")
proof
  show ?M
  proof -
    have inv: "em_inv (em_set (7::nat) (1::nat) None None (em_new None 0))"
      by (intro em_inv_set em_inv_new)
    show ?thesis
      using inv
        C9_clearExpiry [THEN conjunct1, of "em_set (7::nat) (1::nat) None None
          (em_new (Some \<lparr>defaultExpiryMs = Some 2000, defaultExpiryCallback = None,
                         expireErrorCallback = None\<rparr>) 0)" 7]
        C9_clearExpiry [THEN conjunct1, of "em_set (7::nat) (1::nat) None None (em_new None 0)" 7]
        C9_clearExpiry [THEN conjunct1, of "em_set (7::nat) (1::nat) None None (em_new None 0)" 79]
      by (simp add: em_eval prod_eq_iff)
  qed
next
  show ?S
  proof -
    have inv: "es_inv (es_add (7::nat) None None (es_new None 0))"
      by (intro es_inv_add es_inv_new)
    show ?thesis
      using inv
        C9_clearExpiry [THEN conjunct2, of "es_add (7::nat) None None
          (es_new (Some \<lparr>s_defaultExpiryMs = Some 2000, s_defaultExpiryCallback = None,
                         s_expireErrorCallback = None\<rparr>) 0)" 7]
        C9_clearExpiry [THEN conjunct2, of "es_add (7::nat) None None (es_new None 0)" 7]
        C9_clearExpiry [THEN conjunct2, of "es_add (7::nat) None None (es_new None 0)" 79]
      by (simp add: es_eval prod_eq_iff)
  qed
qed

text \<open>
  C10. \<^verbatim>\<open>setMinimumExpiry\<close> of \<^verbatim>\<open>ExpiringMap\<close> and the iteration order. When it
  extends the expiry (current expiry before now + m) it is \<^verbatim>\<open>setExpiry\<close>, which
  re-inserts the key with \<^verbatim>\<open>set\<close>: the key moves to the end of the keys. When the
  current expiry is at or after now + m the keys and their order are unchanged.
  The first conjunct states this for \<^verbatim>\<open>ExpiringMap\<close>, the second for \<^verbatim>\<open>ExpiringSet\<close>, where
  \<^verbatim>\<open>add\<close> takes the place of \<^verbatim>\<open>set\<close>, an element is its own key and there is no value, and
  the callbacks take the element and the set.
\<close>

theorem C10_setMinimumExpiry_order:
  "((\<forall>old. em_getExpiry key w = Some old \<and> old < clock w + m \<longrightarrow>
      em_setMinimumExpiry key m w = em_setExpiry key m w \<and>
      em_keys (snd (em_setMinimumExpiry key m w)) = removeAll key (em_keys w) @ [key]) \<and>
   (\<forall>old. em_getExpiry key w = Some old \<and> clock w + m \<le> old \<longrightarrow>
      em_keys (snd (em_setMinimumExpiry key m w)) = em_keys w) \<and>
   (em_has key w \<longrightarrow>
      em_keys (snd (em_setExpiry key m w)) = removeAll key (em_keys w) @ [key])) \<and>
   ((\<forall>old. es_getExpiry el s = Some old \<and> old < s_clock s + dur \<longrightarrow>
       es_setMinimumExpiry el dur s = es_setExpiry el dur s \<and>
       es_values (snd (es_setMinimumExpiry el dur s)) = removeAll el (es_values s) @ [el]) \<and>
    (\<forall>old. es_getExpiry el s = Some old \<and> s_clock s + dur \<le> old \<longrightarrow>
       es_values (snd (es_setMinimumExpiry el dur s)) = es_values s) \<and>
    (es_has el s \<longrightarrow>
       es_values (snd (es_setExpiry el dur s)) = removeAll el (es_values s) @ [el]))"
  (is "?M \<and> ?S")
proof
  show ?M
    by (auto simp: em_setMinimumExpiry_def Let_def em_setExpiry_def em_getExpiry_def em_keys_set
        em_has_def Map_has_get split: option.splits)
next
  show ?S
    by (auto simp: es_setMinimumExpiry_def Let_def es_setExpiry_def es_getExpiry_def es_values_add
        es_has_def Map_has_get split: option.splits)
qed

theorem C10_setMinimumExpiry_order_witness:
  "(em_keys (em_set 2 (0::nat) (Some 900) None
      (em_set (1::nat) 0 (Some 500) None (em_new None 0))) = [1, 2] \<and>
   em_getExpiry 1 (em_set 2 (0::nat) (Some 900) None
      (em_set (1::nat) 0 (Some 500) None (em_new None 0))) = Some 500 \<and>
   em_keys (snd (em_setMinimumExpiry 1 700 (em_set 2 (0::nat) (Some 900) None
      (em_set (1::nat) 0 (Some 500) None (em_new None 0))))) = [2, 1] \<and>
   em_keys (snd (em_setMinimumExpiry 1 100 (em_set 2 (0::nat) (Some 900) None
      (em_set (1::nat) 0 (Some 500) None (em_new None 0))))) = [1, 2] \<and>
   em_keys (snd (em_setExpiry 1 100 (em_set 2 (0::nat) (Some 900) None
      (em_set (1::nat) 0 (Some 500) None (em_new None 0))))) = [2, 1]) \<and>
   (es_values (es_add (2::nat) (Some 900) None
       (es_add (1::nat) (Some 500) None (es_new None 0))) = [1, 2] \<and>
    es_getExpiry 1 (es_add (2::nat) (Some 900) None
       (es_add (1::nat) (Some 500) None (es_new None 0))) = Some 500 \<and>
    es_values (snd (es_setMinimumExpiry 1 700 (es_add (2::nat) (Some 900) None
       (es_add (1::nat) (Some 500) None (es_new None 0))))) = [2, 1] \<and>
    es_values (snd (es_setMinimumExpiry 1 100 (es_add (2::nat) (Some 900) None
       (es_add (1::nat) (Some 500) None (es_new None 0))))) = [1, 2] \<and>
    es_values (snd (es_setExpiry 1 100 (es_add (2::nat) (Some 900) None
       (es_add (1::nat) (Some 500) None (es_new None 0))))) = [2, 1])"
  (is "?M \<and> ?S")
proof
  show ?M
    using
      C10_setMinimumExpiry_order [THEN conjunct1, of 1 "em_set 2 (0::nat) (Some 900) None
        (em_set (1::nat) 0 (Some 500) None (em_new None 0))" 700]
      C10_setMinimumExpiry_order [THEN conjunct1, of 1 "em_set 2 (0::nat) (Some 900) None
        (em_set (1::nat) 0 (Some 500) None (em_new None 0))" 100]
    by (simp add: em_eval)
next
  show ?S
    using
      C10_setMinimumExpiry_order [THEN conjunct2, of 1 "es_add (2::nat) (Some 900) None
        (es_add (1::nat) (Some 500) None (es_new None 0))" 700]
      C10_setMinimumExpiry_order [THEN conjunct2, of 1 "es_add (2::nat) (Some 900) None
        (es_add (1::nat) (Some 500) None (es_new None 0))" 100]
    by (simp add: es_eval)
qed

text \<open>
  C5. Iteration order of \<^verbatim>\<open>ExpiringMap\<close>. \<^verbatim>\<open>set\<close> puts its key last among the keys,
  removing an earlier occurrence: re-inserting a present key moves it to the end. After
  a sequence of insertions the keys are the inserted keys, each once, in the order of
  their last insertion (\<open>remdups\<close> keeps the last occurrence of each element); in a
  container that had entries before, the keys not inserted again come first, in their
  old order. \<^verbatim>\<open>entries\<close>, \<^verbatim>\<open>values\<close> and the default iterator follow the order of
  \<^verbatim>\<open>keys\<close>, and \<^verbatim>\<open>forEach\<close> calls its callback on the entries in that order, on all of
  them unless a call throws. Keys inserted in the order 10, 20, 30 are yielded in that
  order.
  The first conjunct states this for \<^verbatim>\<open>ExpiringMap\<close>, the second for \<^verbatim>\<open>ExpiringSet\<close>, where
  \<^verbatim>\<open>add\<close> takes the place of \<^verbatim>\<open>set\<close> and an element is its own key: \<^verbatim>\<open>keys\<close> and the default
  iterator are \<^verbatim>\<open>values\<close>, and \<^verbatim>\<open>entries\<close> pairs each element with itself.
\<close>

theorem C5_insertion_order:
  "(em_keys (em_set key v expiryMs callback w) = removeAll key (em_keys w) @ [key] \<and>
   em_keys (em_set_all ins w) =
     filter (\<lambda>k. k \<notin> fst ` set ins) (em_keys w) @ remdups (map fst ins) \<and>
   em_keys (em_set_all ins (em_new opts t)) = remdups (map fst ins) \<and>
   map fst (em_entries w) = em_keys w \<and>
   em_values w = map snd (em_entries w) \<and>
   em_iterator w = em_entries w \<and>
   (\<exists>n. trace (snd (em_forEach f w)) =
      trace w @ map (\<lambda>(k, v). ForEachCallbackCalled f v k (view_of w)) (take n (em_entries w))) \<and>
   ((\<forall>(k, v) \<in> set (em_entries w). \<forall>err. f v k (view_of w) \<noteq> Threw err) \<longrightarrow>
      trace (snd (em_forEach f w)) =
        trace w @ map (\<lambda>(k, v). ForEachCallbackCalled f v k (view_of w)) (em_entries w)) \<and>
   em_keys (em_set_all [(10::nat, a, ms1, cb1), (20, b, ms2, cb2), (30, c, ms3, cb3)]
      (em_new opts2 t2)) = [10, 20, 30]) \<and>
   (es_values (es_add el sexpiryMs scallback s) = removeAll el (es_values s) @ [el] \<and>
    es_values (es_add_all sins s) =
      filter (\<lambda>k. k \<notin> fst ` set sins) (es_values s) @ remdups (map fst sins) \<and>
    es_values (es_add_all sins (es_new sopts tt)) = remdups (map fst sins) \<and>
    es_entries s = map (\<lambda>k. (k, k)) (es_values s) \<and>
    es_keys s = es_values s \<and>
    es_iterator s = es_values s \<and>
    (\<exists>n. s_trace (snd (es_forEach g s)) =
       s_trace s @ map (\<lambda>(k, v). SetForEachCallbackCalled g v k (s_view_of s)) (take n (es_entries s))) \<and>
    ((\<forall>(k, v) \<in> set (es_entries s). \<forall>err. g v k (s_view_of s) \<noteq> Threw err) \<longrightarrow>
       s_trace (snd (es_forEach g s)) =
         s_trace s @ map (\<lambda>(k, v). SetForEachCallbackCalled g v k (s_view_of s)) (es_entries s)) \<and>
    es_values (es_add_all [(10::nat, sms1, scb1), (20, sms2, scb2), (30, sms3, scb3)]
       (es_new sopts2 tt2)) = [10, 20, 30])"
  (is "?M \<and> ?S")
proof
  show ?M
  proof -
    have new: "em_keys (em_new o' t') = []" for o' :: "('x, 'y) ExpiringMapOptions option" and t'
      by (simp add: em_keys_def em_new_def Map_keys_def)
    have pre: "\<exists>n. trace (snd (em_forEach f w)) =
        trace w @ map (\<lambda>(k, v). ForEachCallbackCalled f v k (view_of w)) (take n (em_entries w))"
    proof (cases rule: em_forEach_cases [of w f])
      case no_throw
      have "trace (snd (em_forEach f w)) =
        trace w @ map (\<lambda>(k, v). ForEachCallbackCalled f v k (view_of w))
          (take (length (em_entries w)) (em_entries w))"
        by (simp add: em_forEach_no_throw [where f = f and w = w, OF no_throw])
      then show ?thesis by blast
    next
      case (throw es1 k v es2 err)
      have "trace (snd (em_forEach f w)) =
        trace w @ map (\<lambda>(k, v). ForEachCallbackCalled f v k (view_of w))
          (take (Suc (length es1)) (em_entries w))"
        by (simp add: em_forEach_throw [where f = f and w = w, OF throw] throw(1))
      then show ?thesis by blast
    qed
    have all: "(\<forall>(k, v) \<in> set (em_entries w). \<forall>err. f v k (view_of w) \<noteq> Threw err) \<longrightarrow>
        trace (snd (em_forEach f w)) =
          trace w @ map (\<lambda>(k, v). ForEachCallbackCalled f v k (view_of w)) (em_entries w)"
      by (simp add: em_forEach_no_throw)
    have e: "map fst (em_entries w) = em_keys w"
      by (simp add: em_entries_def em_keys_def Map_keys_def split_beta)
    show ?thesis
      using pre all e
      by (simp add: em_keys_set em_keys_set_all new em_values_def em_iterator_def)
  qed
next
  show ?S
  proof -
    have new: "es_values (es_new o' t') = []" for o' :: "'x ExpiringSetOptions option" and t'
      by (simp add: es_values_def es_new_def Map_keys_def)
    have pre: "\<exists>n. s_trace (snd (es_forEach g s)) =
        s_trace s @ map (\<lambda>(k, v). SetForEachCallbackCalled g v k (s_view_of s)) (take n (es_entries s))"
    proof (cases rule: es_forEach_cases [of s g])
      case no_throw
      have "s_trace (snd (es_forEach g s)) =
        s_trace s @ map (\<lambda>(k, v). SetForEachCallbackCalled g v k (s_view_of s))
          (take (length (es_entries s)) (es_entries s))"
        by (simp add: es_forEach_no_throw [where f = g and s = s, OF no_throw])
      then show ?thesis by blast
    next
      case (throw es1 k v es2 err)
      have "s_trace (snd (es_forEach g s)) =
        s_trace s @ map (\<lambda>(k, v). SetForEachCallbackCalled g v k (s_view_of s))
          (take (Suc (length es1)) (es_entries s))"
        by (simp add: es_forEach_throw [where f = g and s = s, OF throw] throw(1))
      then show ?thesis by blast
    qed
    have all: "(\<forall>(k, v) \<in> set (es_entries s). \<forall>err. g v k (s_view_of s) \<noteq> Threw err) \<longrightarrow>
        s_trace (snd (es_forEach g s)) =
          s_trace s @ map (\<lambda>(k, v). SetForEachCallbackCalled g v k (s_view_of s)) (es_entries s)"
      by (simp add: es_forEach_no_throw)
    have ent: "es_entries s = map (\<lambda>k. (k, k)) (es_values s)"
      by (simp add: es_entries_def es_values_def)
    show ?thesis
      using pre all ent
      by (simp add: es_values_add es_values_add_all new es_keys_def es_iterator_def)
  qed
qed

theorem C5_insertion_order_witness:
  "(em_keys (em_set_all [(1::nat, 0::nat, None, None), (2, 0, None, None), (1, 5, None, None)]
      (em_new None 0)) = [2, 1] \<and>
   trace (snd (em_forEach cb_returns
      (em_set_all [(10::nat, 1::nat, None, None), (20, 2, None, None), (30, 3, None, None)]
         (em_new None 0)))) =
     [ForEachCallbackCalled cb_returns 1 10 [(10, 1, None), (20, 2, None), (30, 3, None)],
      ForEachCallbackCalled cb_returns 2 20 [(10, 1, None), (20, 2, None), (30, 3, None)],
      ForEachCallbackCalled cb_returns 3 30 [(10, 1, None), (20, 2, None), (30, 3, None)]]) \<and>
   (es_values (es_add_all [(1::nat, None, None), (2, None, None), (1, None, None)]
       (es_new None 0)) = [2, 1] \<and>
    s_trace (snd (es_forEach cb_returns
       (es_add_all [(10::nat, None, None), (20, None, None), (30, None, None)]
          (es_new None 0)))) =
      [SetForEachCallbackCalled cb_returns 10 10 [(10, None), (20, None), (30, None)],
       SetForEachCallbackCalled cb_returns 20 20 [(10, None), (20, None), (30, None)],
       SetForEachCallbackCalled cb_returns 30 30 [(10, None), (20, None), (30, None)]])"
  (is "?M \<and> ?S")
proof
  show ?M
  proof -
    let ?ins = "[(1::nat, 0::nat, None::int option, None::(nat, nat) MapExpiryCallback option),
      (2, 0, None, None), (1, 5, None, None)]"
    let ?w = "em_set_all [(10::nat, 1::nat, None::int option,
        None::(nat, nat) MapExpiryCallback option), (20, 2, None, None), (30, 3, None, None)]
           (em_new None 0)"
    note c = C5_insertion_order [THEN conjunct1, of 1 0 None None ?w ?ins None 0 cb_returns]
    have "em_keys (em_set_all ?ins (em_new None 0)) = remdups (map fst ?ins)"
      by (rule c [THEN conjunct2, THEN conjunct2, THEN conjunct1])
    then have k: "em_keys (em_set_all ?ins (em_new None 0)) = [2, 1]"
      by simp
    have f: "(\<forall>(k, v) \<in> set (em_entries ?w). \<forall>err. cb_returns v k (view_of ?w) \<noteq> Threw err) \<longrightarrow>
        trace (snd (em_forEach cb_returns ?w)) =
          trace ?w @ map (\<lambda>(k, v). ForEachCallbackCalled cb_returns v k (view_of ?w)) (em_entries ?w)"
      by (rule c [THEN conjunct2, THEN conjunct2, THEN conjunct2, THEN conjunct2,
            THEN conjunct2, THEN conjunct2, THEN conjunct2, THEN conjunct1])
    have h: "\<forall>(k, v) \<in> set (em_entries ?w). \<forall>err. cb_returns v k (view_of ?w) \<noteq> Threw err"
      by (simp add: cb_returns_def)
    have e: "em_entries ?w = [(10, 1), (20, 2), (30, 3)]"
      "view_of ?w = [(10, 1, None), (20, 2, None), (30, 3, None)]" "trace ?w = []"
      by (simp_all add: em_eval)
    from f h have t: "trace (snd (em_forEach cb_returns ?w)) =
          trace ?w @ map (\<lambda>(k, v). ForEachCallbackCalled cb_returns v k (view_of ?w)) (em_entries ?w)"
      by (rule mp)
    have "trace (snd (em_forEach cb_returns ?w)) =
       [ForEachCallbackCalled cb_returns 1 10 [(10, 1, None), (20, 2, None), (30, 3, None)],
        ForEachCallbackCalled cb_returns 2 20 [(10, 1, None), (20, 2, None), (30, 3, None)],
        ForEachCallbackCalled cb_returns 3 30 [(10, 1, None), (20, 2, None), (30, 3, None)]]"
      unfolding t e by simp
    with k show ?thesis by (rule conjI)
  qed
next
  show ?S
  proof -
    let ?ins = "[(1::nat, None::int option, None::nat SetExpiryCallback option),
      (2, None, None), (1, None, None)]"
    let ?s = "es_add_all [(10::nat, None::int option,
        None::nat SetExpiryCallback option), (20, None, None), (30, None, None)]
           (es_new None 0)"
    note c = C5_insertion_order [THEN conjunct2, of 1 None None ?s ?ins None 0 cb_returns]
    have "es_values (es_add_all ?ins (es_new None 0)) = remdups (map fst ?ins)"
      by (rule c [THEN conjunct2, THEN conjunct2, THEN conjunct1])
    then have k: "es_values (es_add_all ?ins (es_new None 0)) = [2, 1]"
      by simp
    have f: "(\<forall>(k, v) \<in> set (es_entries ?s). \<forall>err. cb_returns v k (s_view_of ?s) \<noteq> Threw err) \<longrightarrow>
        s_trace (snd (es_forEach cb_returns ?s)) =
          s_trace ?s @ map (\<lambda>(k, v). SetForEachCallbackCalled cb_returns v k (s_view_of ?s)) (es_entries ?s)"
      by (rule c [THEN conjunct2, THEN conjunct2, THEN conjunct2, THEN conjunct2,
            THEN conjunct2, THEN conjunct2, THEN conjunct2, THEN conjunct1])
    have h: "\<forall>(k, v) \<in> set (es_entries ?s). \<forall>err. cb_returns v k (s_view_of ?s) \<noteq> Threw err"
      by (simp add: cb_returns_def scb_returns_def)
    have e: "es_entries ?s = [(10, 10), (20, 20), (30, 30)]"
      "s_view_of ?s = [(10, None), (20, None), (30, None)]" "s_trace ?s = []"
      by (simp_all add: es_eval)
    from f h have t: "s_trace (snd (es_forEach cb_returns ?s)) =
          s_trace ?s @ map (\<lambda>(k, v). SetForEachCallbackCalled cb_returns v k (s_view_of ?s)) (es_entries ?s)"
      by (rule mp)
    have "s_trace (snd (es_forEach cb_returns ?s)) =
       [SetForEachCallbackCalled cb_returns 10 10 [(10, None), (20, None), (30, None)],
        SetForEachCallbackCalled cb_returns 20 20 [(10, None), (20, None), (30, None)],
        SetForEachCallbackCalled cb_returns 30 30 [(10, None), (20, None), (30, None)]]"
      unfolding t e by simp
    with k show ?thesis by (rule conjI)
  qed
qed

text \<open>
  C4. The claim that no operation other than \<^verbatim>\<open>expire\<close> and \<^verbatim>\<open>expireAll\<close> ever
  rejects fails for \<^verbatim>\<open>forEach\<close>: its promise is rejected when a call of its callback
  throws (which ends the loop) or returns a promise that is rejected.
\<close>

theorem C4_forEach_rejects_counterexample:
  "fst (em_forEach cb_throws (em_set (10::nat) (0::nat) None None (em_new None 0))) =
     [Rejected (JsError 1)] \<and>
   fst (em_forEach cb_rejects (em_set (10::nat) (0::nat) None None (em_new None 0))) =
     [Rejected (JsError 2)]"
  by (simp add: em_eval em_forEach_def cb_throws_def cb_rejects_def Promise_all_def)

text \<open>
  C4, as amended. \<^verbatim>\<open>forEach\<close> of \<^verbatim>\<open>ExpiringMap\<close> surfaces the failures of its
  callback and nothing else: its promise can be rejected only with an error that a call
  of the callback on an entry threw or rejected with; it is rejected whenever some call
  does so; and it is fulfilled when every call returns or resolves. \<^verbatim>\<open>forEach\<close>
  changes neither the entries nor the timers. The other operations call no user
  function: \<^verbatim>\<open>set\<close>, \<^verbatim>\<open>delete\<close>, \<^verbatim>\<open>clear\<close>, \<^verbatim>\<open>clearExpiry\<close>, \<^verbatim>\<open>setExpiry\<close> and
  \<^verbatim>\<open>setMinimumExpiry\<close> leave the trace of such calls unchanged (\<^verbatim>\<open>get\<close>, \<^verbatim>\<open>has\<close>,
  \<^verbatim>\<open>getExpiry\<close>, \<^verbatim>\<open>size\<close> and the iterators only read the state), and their code has
  no \<^verbatim>\<open>throw\<close>, which is why they are total functions here.
  The first conjunct states this for \<^verbatim>\<open>ExpiringMap\<close>, the second for \<^verbatim>\<open>ExpiringSet\<close>, where
  \<^verbatim>\<open>add\<close> takes the place of \<^verbatim>\<open>set\<close>, an element is its own key and there is no value, and
  the callbacks take the element and the set.
\<close>

theorem C4_only_forEach_surfaces_callback_failures:
  "((\<forall>r \<in> set (fst (em_forEach f w)). \<forall>err. r = Rejected err \<longrightarrow>
      (\<exists>(k, v) \<in> set (em_entries w).
         f v k (view_of w) = Threw err \<or> f v k (view_of w) = RejectedWith err)) \<and>
   ((\<exists>(k, v) \<in> set (em_entries w).
       \<exists>err. f v k (view_of w) = Threw err \<or> f v k (view_of w) = RejectedWith err) \<longrightarrow>
      fst (em_forEach f w) \<noteq> [] \<and> (\<forall>r \<in> set (fst (em_forEach f w)). \<exists>err. r = Rejected err)) \<and>
   ((\<forall>(k, v) \<in> set (em_entries w).
       f v k (view_of w) = Returned \<or> f v k (view_of w) = Resolved) \<longrightarrow>
      fst (em_forEach f w) = [Fulfilled ()]) \<and>
   priv_map (snd (em_forEach f w)) = priv_map w \<and>
   timers (snd (em_forEach f w)) = timers w \<and>
   trace (em_set key v expiryMs callback w) = trace w \<and>
   trace (snd (em_delete key w)) = trace w \<and>
   trace (em_clear w) = trace w \<and>
   trace (snd (em_clearExpiry key w)) = trace w \<and>
   trace (snd (em_setExpiry key ms w)) = trace w \<and>
   trace (snd (em_setMinimumExpiry key ms w)) = trace w) \<and>
   ((\<forall>r \<in> set (fst (es_forEach g s)). \<forall>err. r = Rejected err \<longrightarrow>
       (\<exists>(k, v) \<in> set (es_entries s).
          g v k (s_view_of s) = Threw err \<or> g v k (s_view_of s) = RejectedWith err)) \<and>
    ((\<exists>(k, v) \<in> set (es_entries s).
        \<exists>err. g v k (s_view_of s) = Threw err \<or> g v k (s_view_of s) = RejectedWith err) \<longrightarrow>
       fst (es_forEach g s) \<noteq> [] \<and> (\<forall>r \<in> set (fst (es_forEach g s)). \<exists>err. r = Rejected err)) \<and>
    ((\<forall>(k, v) \<in> set (es_entries s).
        g v k (s_view_of s) = Returned \<or> g v k (s_view_of s) = Resolved) \<longrightarrow>
       fst (es_forEach g s) = [Fulfilled ()]) \<and>
    s_priv_map (snd (es_forEach g s)) = s_priv_map s \<and>
    s_timers (snd (es_forEach g s)) = s_timers s \<and>
    s_trace (es_add el sexpiryMs scallback s) = s_trace s \<and>
    s_trace (snd (es_delete el s)) = s_trace s \<and>
    s_trace (es_clear s) = s_trace s \<and>
    s_trace (snd (es_clearExpiry el s)) = s_trace s \<and>
    s_trace (snd (es_setExpiry el dur s)) = s_trace s \<and>
    s_trace (snd (es_setMinimumExpiry el dur s)) = s_trace s)"
  (is "?M \<and> ?S")
proof
  show ?M
  proof -
    have A: "\<exists>(k, v) \<in> set (em_entries w).
           f v k (view_of w) = Threw err \<or> f v k (view_of w) = RejectedWith err"
      if "Rejected err \<in> set (fst (em_forEach f w))" for err
    proof (cases rule: em_forEach_cases [of w f])
      case no_throw
      from that have "Rejected err \<in> set (map (\<lambda>(k, v). awaited (f v k (view_of w))) (em_entries w))"
        by (simp add: em_forEach_no_throw [where f = f and w = w, OF no_throw]
            Promise_all_rejected)
      then obtain k v where "(k, v) \<in> set (em_entries w)"
        "awaited (f v k (view_of w)) = Rejected err" by auto
      then show ?thesis by (auto simp: awaited_Rejected intro!: bexI [of _ "(k, v)"])
    next
      case (throw es1 k v es2 err')
      from that have "err = err'"
        by (simp add: em_forEach_throw [where f = f and w = w, OF throw])
      with throw(1,3) show ?thesis by auto
    qed
    have B: "fst (em_forEach f w) \<noteq> [] \<and> (\<forall>r \<in> set (fst (em_forEach f w)). \<exists>err. r = Rejected err)"
      if "\<exists>(k, v) \<in> set (em_entries w).
         \<exists>err. f v k (view_of w) = Threw err \<or> f v k (view_of w) = RejectedWith err"
    proof (cases rule: em_forEach_cases [of w f])
      case no_throw
      from that no_throw obtain k v err where
        kv: "(k, v) \<in> set (em_entries w)" "f v k (view_of w) = RejectedWith err" by blast
      have "Rejected err \<in> set (map (\<lambda>(k, v). awaited (f v k (view_of w))) (em_entries w))"
        using kv by (auto simp: image_iff intro!: bexI [of _ "(k, v)"])
      from Promise_all_rejects [OF this] show ?thesis
        by (simp add: em_forEach_no_throw [where f = f and w = w, OF no_throw])
    next
      case (throw es1 k v es2 err')
      show ?thesis by (simp add: em_forEach_throw [where f = f and w = w, OF throw])
    qed
    have C: "fst (em_forEach f w) = [Fulfilled ()]"
      if h: "\<forall>(k, v) \<in> set (em_entries w).
         f v k (view_of w) = Returned \<or> f v k (view_of w) = Resolved"
    proof -
      from h have nt: "\<forall>(k, v) \<in> set (em_entries w). \<forall>err. f v k (view_of w) \<noteq> Threw err"
        by fastforce
      from h have "\<forall>p \<in> set (map (\<lambda>(k, v). awaited (f v k (view_of w))) (em_entries w)).
          \<exists>x. p = Fulfilled x"
        by (fastforce simp: awaited_Fulfilled)
      then show ?thesis
        by (simp add: em_forEach_no_throw [where f = f and w = w, OF nt] Promise_all_fulfilled)
    qed
    have T: "trace (em_clear w) = trace w \<and>
     trace (snd (em_clearExpiry key w)) = trace w \<and>
     trace (snd (em_setExpiry key ms w)) = trace w \<and>
     trace (snd (em_setMinimumExpiry key ms w)) = trace w"
      by (auto simp: em_clear_def em_clear_loop_trace em_clearExpiry_def em_setExpiry_def
          em_setMinimumExpiry_def Let_def clearTimeout_def split: option.splits)
    have S: "priv_map (snd (em_forEach f w)) = priv_map w \<and>
     timers (snd (em_forEach f w)) = timers w \<and>
     trace (em_set key v expiryMs callback w) = trace w \<and>
     trace (snd (em_delete key w)) = trace w"
      by (simp add: em_forEach_state)
    from A B C T S show ?thesis by blast
  qed
next
  show ?S
  proof -
    have A: "\<exists>(k, v) \<in> set (es_entries s).
           g v k (s_view_of s) = Threw err \<or> g v k (s_view_of s) = RejectedWith err"
      if "Rejected err \<in> set (fst (es_forEach g s))" for err
    proof (cases rule: es_forEach_cases [of s g])
      case no_throw
      from that have "Rejected err \<in> set (map (\<lambda>(k, v). awaited (g v k (s_view_of s))) (es_entries s))"
        by (simp add: es_forEach_no_throw [where f = g and s = s, OF no_throw]
            Promise_all_rejected)
      then obtain k v where "(k, v) \<in> set (es_entries s)"
        "awaited (g v k (s_view_of s)) = Rejected err" by auto
      then show ?thesis by (auto simp: awaited_Rejected intro!: bexI [of _ "(k, v)"])
    next
      case (throw es1 k v es2 err')
      from that have "err = err'"
        by (simp add: es_forEach_throw [where f = g and s = s, OF throw])
      with throw(1,3) show ?thesis by auto
    qed
    have B: "fst (es_forEach g s) \<noteq> [] \<and> (\<forall>r \<in> set (fst (es_forEach g s)). \<exists>err. r = Rejected err)"
      if "\<exists>(k, v) \<in> set (es_entries s).
         \<exists>err. g v k (s_view_of s) = Threw err \<or> g v k (s_view_of s) = RejectedWith err"
    proof (cases rule: es_forEach_cases [of s g])
      case no_throw
      from that no_throw obtain k v err where
        kv: "(k, v) \<in> set (es_entries s)" "g v k (s_view_of s) = RejectedWith err" by blast
      have "Rejected err \<in> set (map (\<lambda>(k, v). awaited (g v k (s_view_of s))) (es_entries s))"
        using kv by (auto simp: image_iff intro!: bexI [of _ "(k, v)"])
      from Promise_all_rejects [OF this] show ?thesis
        by (simp add: es_forEach_no_throw [where f = g and s = s, OF no_throw])
    next
      case (throw es1 k v es2 err')
      show ?thesis by (simp add: es_forEach_throw [where f = g and s = s, OF throw])
    qed
    have C: "fst (es_forEach g s) = [Fulfilled ()]"
      if hdl: "\<forall>(k, v) \<in> set (es_entries s).
         g v k (s_view_of s) = Returned \<or> g v k (s_view_of s) = Resolved"
    proof -
      from hdl have nt: "\<forall>(k, v) \<in> set (es_entries s). \<forall>err. g v k (s_view_of s) \<noteq> Threw err"
        by fastforce
      from hdl have "\<forall>p \<in> set (map (\<lambda>(k, v). awaited (g v k (s_view_of s))) (es_entries s)).
          \<exists>x. p = Fulfilled x"
        by (fastforce simp: awaited_Fulfilled)
      then show ?thesis
        by (simp add: es_forEach_no_throw [where f = g and s = s, OF nt] Promise_all_fulfilled)
    qed
    have T: "s_trace (es_clear s) = s_trace s \<and>
     s_trace (snd (es_clearExpiry el s)) = s_trace s \<and>
     s_trace (snd (es_setExpiry el dur s)) = s_trace s \<and>
     s_trace (snd (es_setMinimumExpiry el dur s)) = s_trace s"
      by (auto simp: es_clear_def es_clear_loop_trace es_clearExpiry_def es_setExpiry_def
          es_setMinimumExpiry_def Let_def s_clearTimeout_def split: option.splits)
    have S: "s_priv_map (snd (es_forEach g s)) = s_priv_map s \<and>
     s_timers (snd (es_forEach g s)) = s_timers s \<and>
     s_trace (es_add el sexpiryMs scallback s) = s_trace s \<and>
     s_trace (snd (es_delete el s)) = s_trace s"
      by (simp add: es_forEach_state)
    from A B C T S show ?thesis by blast
  qed
qed

theorem C4_only_forEach_surfaces_callback_failures_witness:
  "(fst (em_forEach cb_resolves (em_set (10::nat) (0::nat) None None (em_new None 0))) =
     [Fulfilled ()] \<and>
   fst (em_forEach cb_rejects (em_set (10::nat) (0::nat) None None (em_new None 0))) \<noteq> [] \<and>
   Fulfilled () \<notin>
     set (fst (em_forEach cb_rejects (em_set (10::nat) (0::nat) None None (em_new None 0))))) \<and>
   (fst (es_forEach cb_resolves (es_add (10::nat) None None (es_new None 0))) =
      [Fulfilled ()] \<and>
    fst (es_forEach cb_rejects (es_add (10::nat) None None (es_new None 0))) \<noteq> [] \<and>
    Fulfilled () \<notin>
      set (fst (es_forEach cb_rejects (es_add (10::nat) None None (es_new None 0)))))"
  (is "?M \<and> ?S")
proof
  show ?M
  proof -
    let ?w = "em_set (10::nat) (0::nat) None None (em_new None 0)"
    note c = C4_only_forEach_surfaces_callback_failures [THEN conjunct1, of cb_resolves ?w]
    note r = C4_only_forEach_surfaces_callback_failures [THEN conjunct1, of cb_rejects ?w]
    have e: "em_entries ?w = [(10, 0)]" by (simp add: em_eval)
    have "\<forall>(k, v) \<in> set (em_entries ?w).
        cb_resolves v k (view_of ?w) = Returned \<or> cb_resolves v k (view_of ?w) = Resolved"
      by (simp add: cb_resolves_def)
    with c have 1: "fst (em_forEach cb_resolves ?w) = [Fulfilled ()]" by blast
    have "\<exists>(k, v) \<in> set (em_entries ?w). \<exists>err.
        cb_rejects v k (view_of ?w) = Threw err \<or> cb_rejects v k (view_of ?w) = RejectedWith err"
      unfolding e by (simp add: cb_rejects_def)
    with r have 2: "fst (em_forEach cb_rejects ?w) \<noteq> [] \<and>
        (\<forall>r \<in> set (fst (em_forEach cb_rejects ?w)). \<exists>err. r = Rejected err)" by blast
    from 1 2 show ?thesis by blast
  qed
next
  show ?S
  proof -
    let ?s = "es_add (10::nat) None None (es_new None 0)"
    note c = C4_only_forEach_surfaces_callback_failures [THEN conjunct2, of cb_resolves ?s]
    note r = C4_only_forEach_surfaces_callback_failures [THEN conjunct2, of cb_rejects ?s]
    have e: "es_entries ?s = [(10, 10)]" by (simp add: es_eval)
    have "\<forall>(k, v) \<in> set (es_entries ?s).
        cb_resolves v k (s_view_of ?s) = Returned \<or> cb_resolves v k (s_view_of ?s) = Resolved"
      by (simp add: cb_resolves_def scb_resolves_def)
    with c have 1: "fst (es_forEach cb_resolves ?s) = [Fulfilled ()]" by blast
    have "\<exists>(k, v) \<in> set (es_entries ?s). \<exists>err.
        cb_rejects v k (s_view_of ?s) = Threw err \<or> cb_rejects v k (s_view_of ?s) = RejectedWith err"
      unfolding e by (simp add: cb_rejects_def scb_rejects_def)
    with r have 2: "fst (es_forEach cb_rejects ?s) \<noteq> [] \<and>
        (\<forall>r \<in> set (fst (es_forEach cb_rejects ?s)). \<exists>err. r = Rejected err)" by blast
    from 1 2 show ?thesis by blast
  qed
qed




text \<open>
  C2. The claim that the timer path never leaves an asynchronous failure unhandled fails
  when the \<^verbatim>\<open>expireErrorCallback\<close> itself throws: \<^verbatim>\<open>toSync\<close> calls it inside the
  \<^verbatim>\<open>catch\<close> handler, and nothing handles the promise of \<^verbatim>\<open>catch\<close>. Here key 32 is
  inserted with 50 ms and a callback that throws, in a container whose error callback
  throws; 50 ms later the timer fires.
\<close>

theorem C2_unhandled_counterexample:
  "map_option trace
     (fire 0 (advance 50
        (em_set (32::nat) (7::nat) (Some 50) (Some cb_throws)
           (em_new (Some \<lparr>defaultExpiryMs = None, defaultExpiryCallback = None,
                          expireErrorCallback = Some ec_throws\<rparr>) 0)))) =
   Some [ExpiryCallbackCalled cb_throws 32 7 [],
         ErrorCallbackCalled ec_throws (JsError 1),
         UnhandledRejection (JsError 9)]"
  by (simp add: em_eval fire_def toSync_def timer_body_def call_expiryCallback_def
      cb_throws_def ec_throws_def)

text \<open>
  C2, as amended. In a state that satisfies the invariant, an entry of \<^verbatim>\<open>ExpiringMap\<close>
  with a timer has an expiry, and the runtime cannot run the timer before that time.
  When the timer fires, the state becomes the one \<^verbatim>\<open>delete\<close> of the key leaves, plus
  the calls made: if the entry has a callback, it is called with the key, the value
  and the container, which no longer shows the key; if the callback throws or its
  promise is rejected, the error goes to the \<^verbatim>\<open>expireErrorCallback\<close> of the options if
  there is one and is dropped otherwise. No rejection is left unhandled provided the
  \<^verbatim>\<open>expireErrorCallback\<close> returns normally (an error it throws is left unhandled).
  \<^verbatim>\<open>set\<close> with a duration, given or by default, produces such an entry: its timer is
  the fresh handle, its expiry is now + duration, and the invariant holds again.
  The first conjunct states this for \<^verbatim>\<open>ExpiringMap\<close>, the second for \<^verbatim>\<open>ExpiringSet\<close>, where
  \<^verbatim>\<open>add\<close> takes the place of \<^verbatim>\<open>set\<close>, an element is its own key and there is no value, and
  the callbacks take the element and the set.
\<close>

theorem C2_timer_fires:
  "((em_inv w \<and> Map_get (priv_map w) key = Some e \<and> timer e = Some h \<longrightarrow>
      (\<exists>t evs.
         expiry e = Some t \<and>
         (clock w < t \<longrightarrow> fire h w = None) \<and>
         (t \<le> clock w \<longrightarrow>
            fire h w = Some ((snd (em_delete key w))\<lparr>trace := trace w @ evs\<rparr>)) \<and>
         evs =
           (case expiryCallback e of
              None \<Rightarrow> []
            | Some cb \<Rightarrow>
                ExpiryCallbackCalled cb key (entry_value e) (view_of (snd (em_delete key w))) #
                (case awaited (cb key (entry_value e) (view_of (snd (em_delete key w)))) of
                   Rejected err \<Rightarrow>
                     (case opt_expireErrorCallback w of
                        None \<Rightarrow> []
                      | Some f \<Rightarrow>
                          ErrorCallbackCalled f err #
                          (case f err of None \<Rightarrow> [] | Some err2 \<Rightarrow> [UnhandledRejection err2]))
                 | _ \<Rightarrow> [])) \<and>
         ((\<forall>f err. opt_expireErrorCallback w = Some f \<longrightarrow> f err = None) \<longrightarrow>
            (\<forall>err. UnhandledRejection err \<notin> set evs))) \<and>
      key \<notin> fst ` set (view_of (snd (em_delete key w))) \<and>
      \<not> em_has key (snd (em_delete key w))) \<and>
   (em_inv w \<and> (case expiryMs of None \<Rightarrow> opt_defaultExpiryMs w | Some ms \<Rightarrow> Some ms) = Some ms
      \<longrightarrow>
      em_inv (em_set key v expiryMs callback w) \<and>
      (\<exists>e. Map_get (priv_map (em_set key v expiryMs callback w)) key = Some e \<and>
         timer e = Some (next_timer w) \<and>
         expiry e = Some (clock w + ms) \<and>
         entry_value e = v \<and>
         expiryCallback e =
           (case callback of None \<Rightarrow> opt_defaultExpiryCallback w | Some cb \<Rightarrow> Some cb)))) \<and>
   ((es_inv s \<and> Map_get (s_priv_map s) el = Some ent \<and> s_timer ent = Some hdl \<longrightarrow>
       (\<exists>tt evs.
          s_expiry ent = Some tt \<and>
          (s_clock s < tt \<longrightarrow> s_fire hdl s = None) \<and>
          (tt \<le> s_clock s \<longrightarrow>
             s_fire hdl s = Some ((snd (es_delete el s))\<lparr>s_trace := s_trace s @ evs\<rparr>)) \<and>
          evs =
            (case s_expiryCallback ent of
               None \<Rightarrow> []
             | Some cb \<Rightarrow>
                 SetExpiryCallbackCalled cb el (s_view_of (snd (es_delete el s))) #
                 (case awaited (cb el (s_view_of (snd (es_delete el s)))) of
                    Rejected err \<Rightarrow>
                      (case s_opt_expireErrorCallback s of
                         None \<Rightarrow> []
                       | Some g \<Rightarrow>
                           SetErrorCallbackCalled g err #
                           (case g err of None \<Rightarrow> [] | Some err2 \<Rightarrow> [SetUnhandledRejection err2]))
                  | _ \<Rightarrow> [])) \<and>
          ((\<forall>g err. s_opt_expireErrorCallback s = Some g \<longrightarrow> g err = None) \<longrightarrow>
             (\<forall>err. SetUnhandledRejection err \<notin> set evs))) \<and>
       el \<notin> fst ` set (s_view_of (snd (es_delete el s))) \<and>
       \<not> es_has el (snd (es_delete el s))) \<and>
    (es_inv s \<and> (case sexpiryMs of None \<Rightarrow> s_opt_defaultExpiryMs s | Some dur \<Rightarrow> Some dur) = Some dur
       \<longrightarrow>
       es_inv (es_add el sexpiryMs scallback s) \<and>
       (\<exists>ent. Map_get (s_priv_map (es_add el sexpiryMs scallback s)) el = Some ent \<and>
          s_timer ent = Some (s_next_timer s) \<and>
          s_expiry ent = Some (s_clock s + dur) \<and>
          s_expiryCallback ent =
            (case scallback of None \<Rightarrow> s_opt_defaultExpiryCallback s | Some cb \<Rightarrow> Some cb))))"
  (is "?M \<and> ?S")
proof
  show ?M
  proof (intro conjI impI)
    assume a: "em_inv w \<and> Map_get (priv_map w) key = Some e \<and> timer e = Some h"
    then have armed: "entries_armed w" by (simp add: em_inv_def)
    from a have get: "Map_get (priv_map w) key = Some e" and tm: "timer e = Some h" by simp_all
    let ?c = "\<lambda>t. \<lparr>due = t, t_key = key, t_value = entry_value e,
        t_expiryCallback = expiryCallback e, t_errorCallback = opt_expireErrorCallback w\<rparr>"
    from entries_armedD [OF armed Map_get_SomeD [OF get] tm] obtain t where
      t: "expiry e = Some t" and c: "map_of (timers w) h = Some (?c t)" by blast
    let ?evs = "case expiryCallback e of
                None \<Rightarrow> []
              | Some cb \<Rightarrow>
                  ExpiryCallbackCalled cb key (entry_value e) (view_of (snd (em_delete key w))) #
                  (case awaited (cb key (entry_value e) (view_of (snd (em_delete key w)))) of
                     Rejected err \<Rightarrow>
                       (case opt_expireErrorCallback w of
                          None \<Rightarrow> []
                        | Some f \<Rightarrow>
                            ErrorCallbackCalled f err #
                            (case f err of None \<Rightarrow> [] | Some err2 \<Rightarrow> [UnhandledRejection err2]))
                   | _ \<Rightarrow> [])"
    have early: "clock w < t \<longrightarrow> fire h w = None"
      by (simp add: fire_def c)
    have late: "t \<le> clock w \<longrightarrow>
        fire h w = Some ((snd (em_delete key w))\<lparr>trace := trace w @ ?evs\<rparr>)"
    proof
      assume "t \<le> clock w"
      then have "due (?c t) \<le> clock w" by simp
      from fire_eq [OF c this, of e] get tm show
        "fire h w = Some ((snd (em_delete key w))\<lparr>trace := trace w @ ?evs\<rparr>)"
        by (simp cong: option.case_cong promise.case_cong)
    qed
    have ok: "(\<forall>f err. opt_expireErrorCallback w = Some f \<longrightarrow> f err = None) \<longrightarrow>
        (\<forall>err. UnhandledRejection err \<notin> set ?evs)"
      by (auto split: option.splits promise.splits) (metis option.distinct(1))
    from t early late ok show "\<exists>t evs.
           expiry e = Some t \<and>
           (clock w < t \<longrightarrow> fire h w = None) \<and>
           (t \<le> clock w \<longrightarrow>
              fire h w = Some ((snd (em_delete key w))\<lparr>trace := trace w @ evs\<rparr>)) \<and>
           evs = ?evs \<and>
           ((\<forall>f err. opt_expireErrorCallback w = Some f \<longrightarrow> f err = None) \<longrightarrow>
              (\<forall>err. UnhandledRejection err \<notin> set evs))"
      by blast
  next
    show "key \<notin> fst ` set (view_of (snd (em_delete key w)))"
      using Map_has_delete [of "priv_map w" key key] by (simp add: view_of_keys Map_has_def)
  next
    show "\<not> em_has key (snd (em_delete key w))"
      by (simp add: em_has_def Map_has_delete)
  next
    assume "em_inv w \<and>
      (case expiryMs of None \<Rightarrow> opt_defaultExpiryMs w | Some ms \<Rightarrow> Some ms) = Some ms"
    then show "em_inv (em_set key v expiryMs callback w)" by (simp add: em_inv_set)
  next
    assume "em_inv w \<and>
      (case expiryMs of None \<Rightarrow> opt_defaultExpiryMs w | Some ms \<Rightarrow> Some ms) = Some ms"
    then show "\<exists>e. Map_get (priv_map (em_set key v expiryMs callback w)) key = Some e \<and>
           timer e = Some (next_timer w) \<and>
           expiry e = Some (clock w + ms) \<and>
           entry_value e = v \<and>
           expiryCallback e =
             (case callback of None \<Rightarrow> opt_defaultExpiryCallback w | Some cb \<Rightarrow> Some cb)"
      by (simp add: em_set_map Map_get_delete_append)
  qed
next
  show ?S
  proof (intro conjI impI)
    assume a: "es_inv s \<and> Map_get (s_priv_map s) el = Some ent \<and> s_timer ent = Some hdl"
    then have armed: "s_entries_armed s" by (simp add: es_inv_def)
    from a have get: "Map_get (s_priv_map s) el = Some ent" and tm: "s_timer ent = Some hdl" by simp_all
    let ?c = "\<lambda>tt. \<lparr>s_due = tt, s_t_value = el, s_t_expiryCallback = s_expiryCallback ent, s_t_errorCallback = s_opt_expireErrorCallback s\<rparr>"
    from s_entries_armedD [OF armed Map_get_SomeD [OF get] tm] obtain tt where
      tt: "s_expiry ent = Some tt" and c: "map_of (s_timers s) hdl = Some (?c tt)" by blast
    let ?evs = "case s_expiryCallback ent of
                None \<Rightarrow> []
              | Some cb \<Rightarrow>
                  SetExpiryCallbackCalled cb el (s_view_of (snd (es_delete el s))) #
                  (case awaited (cb el (s_view_of (snd (es_delete el s)))) of
                     Rejected err \<Rightarrow>
                       (case s_opt_expireErrorCallback s of
                          None \<Rightarrow> []
                        | Some g \<Rightarrow>
                            SetErrorCallbackCalled g err #
                            (case g err of None \<Rightarrow> [] | Some err2 \<Rightarrow> [SetUnhandledRejection err2]))
                   | _ \<Rightarrow> [])"
    have early: "s_clock s < tt \<longrightarrow> s_fire hdl s = None"
      by (simp add: s_fire_def c)
    have late: "tt \<le> s_clock s \<longrightarrow>
        s_fire hdl s = Some ((snd (es_delete el s))\<lparr>s_trace := s_trace s @ ?evs\<rparr>)"
    proof
      assume "tt \<le> s_clock s"
      then have "s_due (?c tt) \<le> s_clock s" by simp
      from s_fire_eq [OF c this, of ent] get tm show
        "s_fire hdl s = Some ((snd (es_delete el s))\<lparr>s_trace := s_trace s @ ?evs\<rparr>)"
        by (simp cong: option.case_cong promise.case_cong)
    qed
    have ok: "(\<forall>g err. s_opt_expireErrorCallback s = Some g \<longrightarrow> g err = None) \<longrightarrow>
        (\<forall>err. SetUnhandledRejection err \<notin> set ?evs)"
      by (auto split: option.splits promise.splits) (metis option.distinct(1))
    from tt early late ok show "\<exists>tt evs.
           s_expiry ent = Some tt \<and>
           (s_clock s < tt \<longrightarrow> s_fire hdl s = None) \<and>
           (tt \<le> s_clock s \<longrightarrow>
              s_fire hdl s = Some ((snd (es_delete el s))\<lparr>s_trace := s_trace s @ evs\<rparr>)) \<and>
           evs = ?evs \<and>
           ((\<forall>g err. s_opt_expireErrorCallback s = Some g \<longrightarrow> g err = None) \<longrightarrow>
              (\<forall>err. SetUnhandledRejection err \<notin> set evs))"
      by blast
  next
    show "el \<notin> fst ` set (s_view_of (snd (es_delete el s)))"
      using Map_has_delete [of "s_priv_map s" el el] by (simp add: s_view_of_keys Map_has_def)
  next
    show "\<not> es_has el (snd (es_delete el s))"
      by (simp add: es_has_def Map_has_delete)
  next
    assume "es_inv s \<and>
      (case sexpiryMs of None \<Rightarrow> s_opt_defaultExpiryMs s | Some dur \<Rightarrow> Some dur) = Some dur"
    then show "es_inv (es_add el sexpiryMs scallback s)" by (simp add: es_inv_add)
  next
    assume "es_inv s \<and>
      (case sexpiryMs of None \<Rightarrow> s_opt_defaultExpiryMs s | Some dur \<Rightarrow> Some dur) = Some dur"
    then show "\<exists>ent. Map_get (s_priv_map (es_add el sexpiryMs scallback s)) el = Some ent \<and>
           s_timer ent = Some (s_next_timer s) \<and>
           s_expiry ent = Some (s_clock s + dur) \<and>
           s_expiryCallback ent =
             (case scallback of None \<Rightarrow> s_opt_defaultExpiryCallback s | Some cb \<Rightarrow> Some cb)"
      by (simp add: es_add_map Map_get_delete_append)
  qed
qed

theorem C2_timer_fires_witness:
  "(em_inv (advance 70 (em_set (32::nat) (7::nat) (Some 50) (Some cb_rejects)
      (em_new (Some \<lparr>defaultExpiryMs = None, defaultExpiryCallback = None,
                     expireErrorCallback = Some ec_returns\<rparr>) 0))) \<and>
   Map_get (priv_map (advance 70 (em_set (32::nat) (7::nat) (Some 50) (Some cb_rejects)
      (em_new (Some \<lparr>defaultExpiryMs = None, defaultExpiryCallback = None,
                     expireErrorCallback = Some ec_returns\<rparr>) 0)))) 32 =
     Some \<lparr>expiry = Some 50, timer = Some 0, expiryCallback = Some cb_rejects,
           entry_value = 7\<rparr> \<and>
   fire 0 (advance 70 (em_set (32::nat) (7::nat) (Some 50) (Some cb_rejects)
      (em_new (Some \<lparr>defaultExpiryMs = None, defaultExpiryCallback = None,
                     expireErrorCallback = Some ec_returns\<rparr>) 0))) =
     Some ((snd (em_delete 32 (advance 70 (em_set (32::nat) (7::nat) (Some 50) (Some cb_rejects)
        (em_new (Some \<lparr>defaultExpiryMs = None, defaultExpiryCallback = None,
                       expireErrorCallback = Some ec_returns\<rparr>) 0)))))
       \<lparr>trace := [ExpiryCallbackCalled cb_rejects 32 7 [],
                  ErrorCallbackCalled ec_returns (JsError 2)]\<rparr>) \<and>
   em_size (snd (em_delete 32 (advance 70 (em_set (32::nat) (7::nat) (Some 50) (Some cb_rejects)
      (em_new (Some \<lparr>defaultExpiryMs = None, defaultExpiryCallback = None,
                     expireErrorCallback = Some ec_returns\<rparr>) 0))))) = 0) \<and>
   (es_inv (s_advance 70 (es_add (32::nat) (Some 50) (Some scb_rejects)
       (es_new (Some \<lparr>s_defaultExpiryMs = None, s_defaultExpiryCallback = None,
                      s_expireErrorCallback = Some ec_returns\<rparr>) 0))) \<and>
    Map_get (s_priv_map (s_advance 70 (es_add (32::nat) (Some 50) (Some scb_rejects)
       (es_new (Some \<lparr>s_defaultExpiryMs = None, s_defaultExpiryCallback = None,
                      s_expireErrorCallback = Some ec_returns\<rparr>) 0)))) 32 =
      Some \<lparr>s_expiry = Some 50, s_timer = Some 0, s_expiryCallback = Some scb_rejects\<rparr> \<and>
    s_fire 0 (s_advance 70 (es_add (32::nat) (Some 50) (Some scb_rejects)
       (es_new (Some \<lparr>s_defaultExpiryMs = None, s_defaultExpiryCallback = None,
                      s_expireErrorCallback = Some ec_returns\<rparr>) 0))) =
      Some ((snd (es_delete 32 (s_advance 70 (es_add (32::nat) (Some 50) (Some scb_rejects)
         (es_new (Some \<lparr>s_defaultExpiryMs = None, s_defaultExpiryCallback = None,
                        s_expireErrorCallback = Some ec_returns\<rparr>) 0)))))
        \<lparr>s_trace := [SetExpiryCallbackCalled scb_rejects 32 [],
                   SetErrorCallbackCalled ec_returns (JsError 2)]\<rparr>) \<and>
    es_size (snd (es_delete 32 (s_advance 70 (es_add (32::nat) (Some 50) (Some scb_rejects)
       (es_new (Some \<lparr>s_defaultExpiryMs = None, s_defaultExpiryCallback = None,
                      s_expireErrorCallback = Some ec_returns\<rparr>) 0))))) = 0)"
  (is "?M \<and> ?S")
proof
  show ?M
  proof -
    let ?w = "advance 70 (em_set (32::nat) (7::nat) (Some 50) (Some cb_rejects)
        (em_new (Some \<lparr>defaultExpiryMs = None, defaultExpiryCallback = None,
                       expireErrorCallback = Some ec_returns\<rparr>) 0))"
    let ?e = "\<lparr>expiry = Some 50, timer = Some 0, expiryCallback = Some cb_rejects,
             entry_value = 7\<rparr> :: (nat, nat) entry"
    have inv: "em_inv ?w" by (intro em_inv_advance em_inv_set em_inv_new)
    have get: "Map_get (priv_map ?w) 32 = Some ?e" by (simp add: em_eval)
    have v: "view_of (snd (em_delete 32 ?w)) = []" "trace ?w = []" "clock ?w = 70"
      "opt_expireErrorCallback ?w = Some ec_returns" "em_size (snd (em_delete 32 ?w)) = 0"
      by (simp_all add: em_eval)
    from C2_timer_fires [THEN conjunct1, of ?w 32 ?e 0] inv get obtain t evs where
      t: "expiry ?e = Some t"
      and f: "t \<le> clock ?w \<longrightarrow> fire 0 ?w = Some ((snd (em_delete 32 ?w))\<lparr>trace := trace ?w @ evs\<rparr>)"
      and evs: "evs =
             (case expiryCallback ?e of
                None \<Rightarrow> []
              | Some cb \<Rightarrow>
                  ExpiryCallbackCalled cb 32 (entry_value ?e) (view_of (snd (em_delete 32 ?w))) #
                  (case awaited (cb 32 (entry_value ?e) (view_of (snd (em_delete 32 ?w)))) of
                     Rejected err \<Rightarrow>
                       (case opt_expireErrorCallback ?w of
                          None \<Rightarrow> []
                        | Some f \<Rightarrow>
                            ErrorCallbackCalled f err #
                            (case f err of None \<Rightarrow> [] | Some err2 \<Rightarrow> [UnhandledRejection err2]))
                   | _ \<Rightarrow> []))"
      by auto
    from evs have evs': "evs = [ExpiryCallbackCalled cb_rejects 32 7 [],
        ErrorCallbackCalled ec_returns (JsError 2)]"
      unfolding v by (simp add: cb_rejects_def ec_returns_def)
    from t have "t \<le> clock ?w" unfolding v by simp
    with f have "fire 0 ?w = Some ((snd (em_delete 32 ?w))\<lparr>trace := trace ?w @ evs\<rparr>)"
      by (rule mp)
    then have "fire 0 ?w = Some ((snd (em_delete 32 ?w))
         \<lparr>trace := [ExpiryCallbackCalled cb_rejects 32 7 [],
                    ErrorCallbackCalled ec_returns (JsError 2)]\<rparr>)"
      unfolding evs' v by simp
    with inv get v(5) show ?thesis by blast
  qed
next
  show ?S
  proof -
    let ?s = "s_advance 70 (es_add (32::nat) (Some 50) (Some scb_rejects)
        (es_new (Some \<lparr>s_defaultExpiryMs = None, s_defaultExpiryCallback = None,
                       s_expireErrorCallback = Some ec_returns\<rparr>) 0))"
    let ?e = "\<lparr>s_expiry = Some 50, s_timer = Some 0, s_expiryCallback = Some scb_rejects\<rparr> :: nat set_entry"
    have inv: "es_inv ?s" by (intro es_inv_advance es_inv_add es_inv_new)
    have get: "Map_get (s_priv_map ?s) 32 = Some ?e" by (simp add: es_eval)
    have v: "s_view_of (snd (es_delete 32 ?s)) = []" "s_trace ?s = []" "s_clock ?s = 70"
      "s_opt_expireErrorCallback ?s = Some ec_returns" "es_size (snd (es_delete 32 ?s)) = 0"
      by (simp_all add: es_eval)
    from C2_timer_fires [THEN conjunct2, of ?s 32 ?e 0] inv get obtain t evs where
      t: "s_expiry ?e = Some t"
      and f: "t \<le> s_clock ?s \<longrightarrow> s_fire 0 ?s = Some ((snd (es_delete 32 ?s))\<lparr>s_trace := s_trace ?s @ evs\<rparr>)"
      and evs: "evs =
             (case s_expiryCallback ?e of
                None \<Rightarrow> []
              | Some cb \<Rightarrow>
                  SetExpiryCallbackCalled cb 32 (s_view_of (snd (es_delete 32 ?s))) #
                  (case awaited (cb 32 (s_view_of (snd (es_delete 32 ?s)))) of
                     Rejected err \<Rightarrow>
                       (case s_opt_expireErrorCallback ?s of
                          None \<Rightarrow> []
                        | Some f \<Rightarrow>
                            SetErrorCallbackCalled f err #
                            (case f err of None \<Rightarrow> [] | Some err2 \<Rightarrow> [SetUnhandledRejection err2]))
                   | _ \<Rightarrow> []))"
      by auto
    from evs have evs': "evs = [SetExpiryCallbackCalled scb_rejects 32 [],
        SetErrorCallbackCalled ec_returns (JsError 2)]"
      unfolding v by (simp add: cb_rejects_def scb_rejects_def ec_returns_def)
    from t have "t \<le> s_clock ?s" unfolding v by simp
    with f have "s_fire 0 ?s = Some ((snd (es_delete 32 ?s))\<lparr>s_trace := s_trace ?s @ evs\<rparr>)"
      by (rule mp)
    then have "s_fire 0 ?s = Some ((snd (es_delete 32 ?s))
         \<lparr>s_trace := [SetExpiryCallbackCalled scb_rejects 32 [],
                    SetErrorCallbackCalled ec_returns (JsError 2)]\<rparr>)"
      unfolding evs' v by simp
    with inv get v(5) show ?thesis by blast
  qed
qed

end
